theory Spec2Isabelle
  imports Complex_Main "HOL-Library.Multiset"
begin

section \<open>Survey-pattern generation of the KML to waypoint converter (v8)\<close>

text \<open>
  The converter computes on Python floats. Here every float is a real number: rounding,
  overflow, infinities and NaN are not modelled, and \<open>math.sqrt\<close>, \<open>math.sin\<close>,
  \<open>math.cos\<close>, \<open>math.asin\<close> are the real functions. A point is the tuple
  \<open>(lat, lon)\<close> of the source, in degrees.
\<close>

type_synonym point = "real \<times> real"

subsection \<open>Inward buffer (\<open>create_buffer_polygon\<close>)\<close>

text \<open>The centroid the source computes inline: the arithmetic mean of the vertices.\<close>

definition polygon_centroid :: "point list \<Rightarrow> point" where
  "polygon_centroid polygon =
     (sum_list (map fst polygon) / real (length polygon),
      sum_list (map snd polygon) / real (length polygon))"

text \<open>The body of the loop over the vertices: one vertex, moved toward the centre.\<close>

definition buffer_vertex :: "real \<Rightarrow> point \<Rightarrow> point \<Rightarrow> point" where
  "buffer_vertex buffer_distance center p =
     (let lat = fst p; lon = snd p;
          to_center_lat = fst center - lat;
          to_center_lon = snd center - lon;
          distance = sqrt (to_center_lat\<^sup>2 + to_center_lon\<^sup>2)
      in if distance > 0
         then (lat + (to_center_lat / distance) * buffer_distance,
               lon + (to_center_lon / distance) * buffer_distance)
         else (lat, lon))"

definition create_buffer_polygon :: "real \<Rightarrow> point list \<Rightarrow> point list" where
  "create_buffer_polygon buffer_distance polygon =
     (if length polygon < 3 then polygon
      else map (buffer_vertex buffer_distance (polygon_centroid polygon)) polygon)"

text \<open>Euclidean distance in the (lat, lon) plane, the \<open>distance\<close> of the loop body.\<close>

definition plane_dist :: "point \<Rightarrow> point \<Rightarrow> real" where
  "plane_dist p q = sqrt ((fst q - fst p)\<^sup>2 + (snd q - snd p)\<^sup>2)"


subsection \<open>Spherical primitives\<close>

datatype py_error = IndexError | ValueError

definition radians :: "real \<Rightarrow> real" where
  "radians x = x * pi / 180"

definition degrees :: "real \<Rightarrow> real" where
  "degrees x = x * 180 / pi"

text \<open>\<open>math.atan2(y, x)\<close>, without the signed zeros of the floats.\<close>

definition atan2 :: "real \<Rightarrow> real \<Rightarrow> real" where
  "atan2 y x =
     (if x > 0 then arctan (y / x)
      else if x < 0 then (if y \<ge> 0 then arctan (y / x) + pi else arctan (y / x) - pi)
      else if y > 0 then pi / 2
      else if y < 0 then - (pi / 2)
      else 0)"

text \<open>Python's \<open>x % m\<close> on floats, for a positive \<open>m\<close>: the result has the sign of \<open>m\<close>.\<close>

definition py_mod :: "real \<Rightarrow> real \<Rightarrow> real" where
  "py_mod x m = x - m * of_int \<lfloor>x / m\<rfloor>"

text \<open>The argument \<open>a\<close> of the haversine formula.\<close>

definition haversine_a :: "point \<Rightarrow> point \<Rightarrow> real" where
  "haversine_a point1 point2 =
     (let lat1 = fst point1; lon1 = snd point1;
          lat2 = fst point2; lon2 = snd point2;
          lat1_rad = radians lat1;
          lat2_rad = radians lat2;
          dlat = radians (lat2 - lat1);
          dlon = radians (lon2 - lon1)
      in (sin (dlat / 2))\<^sup>2 + cos lat1_rad * cos lat2_rad * (sin (dlon / 2))\<^sup>2)"

definition calculate_distance :: "point \<Rightarrow> point \<Rightarrow> real" where
  "calculate_distance point1 point2 =
     (let a = haversine_a point1 point2;
          c = 2 * atan2 (sqrt a) (sqrt (1 - a));
          R = 6371000
      in R * c)"

text \<open>The forward azimuth computed inside the loop of \<open>find_longest_side_with_bearing\<close>.\<close>

definition edge_bearing :: "point \<Rightarrow> point \<Rightarrow> real" where
  "edge_bearing p1 p2 =
     (let lat1 = radians (fst p1); lon1 = radians (snd p1);
          lat2 = radians (fst p2); lon2 = radians (snd p2);
          dlon = lon2 - lon1;
          y = sin dlon * cos lat2;
          x = cos lat1 * sin lat2 - sin lat1 * cos lat2 * cos dlon;
          bearing = atan2 y x;
          bearing = degrees bearing
      in py_mod (bearing + 360) 360)"

definition point_at_bearing_and_distance :: "real \<Rightarrow> real \<Rightarrow> real \<Rightarrow> real \<Rightarrow> point" where
  "point_at_bearing_and_distance lat lon bearing distance =
     (let R = 6371000;
          lat1 = radians lat;
          lon1 = radians lon;
          bearing_rad = radians bearing;
          lat2 = arcsin (sin lat1 * cos (distance / R) +
                         cos lat1 * sin (distance / R) * cos bearing_rad);
          lon2 = lon1 + atan2 (sin bearing_rad * sin (distance / R) * cos lat1)
                              (cos (distance / R) - sin lat1 * sin lat2)
      in (degrees lat2, degrees lon2))"

subsection \<open>Longest side and its bearing\<close>

type_synonym longest_side = "nat \<times> real \<times> real \<times> point \<times> point"

text \<open>One pass of the loop over the sides; the state is
  \<open>(longest_side_index, max_length, best_bearing, best_start, best_end)\<close>.\<close>

definition longest_side_step :: "point list \<Rightarrow> longest_side \<Rightarrow> nat \<Rightarrow> longest_side" where
  "longest_side_step polygon st i =
     (let p1 = polygon ! i;
          p2 = polygon ! ((i + 1) mod length polygon);
          len = calculate_distance p1 p2;
          bearing = edge_bearing p1 p2
      in case st of (longest_side_index, max_length, best_bearing, best_start, best_end) \<Rightarrow>
           if len > max_length then (i, len, bearing, p1, p2) else st)"

definition find_longest_side_with_bearing :: "point list \<Rightarrow> py_error + longest_side" where
  "find_longest_side_with_bearing polygon =
     (if polygon = [] then Inl IndexError
      else if length polygon < 3
      then Inr (0, 0, 0, polygon ! 0, if length polygon > 1 then polygon ! 1 else polygon ! 0)
      else Inr (foldl (longest_side_step polygon)
                  (0, 0, 0, polygon ! 0, if length polygon > 1 then polygon ! 1 else polygon ! 0)
                  [0..<length polygon]))"

subsection \<open>Bounding box and corners\<close>

text \<open>\<open>min\<close> and \<open>max\<close> of a Python list raise ValueError on the empty list.\<close>

definition get_polygon_bounds :: "point list \<Rightarrow> py_error + (real \<times> real \<times> real \<times> real)" where
  "get_polygon_bounds polygon =
     (let lats = map fst polygon; lons = map snd polygon
      in if polygon = [] then Inl ValueError
         else Inr (foldl min (hd lats) (tl lats), foldl max (hd lats) (tl lats),
                   foldl min (hd lons) (tl lons), foldl max (hd lons) (tl lons)))"

text \<open>The running minimum of one corner: \<open>None\<close> is the initial
  \<open>(float('inf'), None)\<close>; a strict comparison, so the first nearest vertex stays.\<close>

definition closer :: "(real \<times> point) option \<Rightarrow> real \<Rightarrow> point \<Rightarrow> (real \<times> point) option" where
  "closer best d p =
     (case best of None \<Rightarrow> Some (d, p)
      | Some (bd, bp) \<Rightarrow> if d < bd then Some (d, p) else best)"

definition corner_step ::
  "real \<times> real \<times> real \<times> real \<Rightarrow>
   (real \<times> point) option \<times> (real \<times> point) option \<times> (real \<times> point) option \<times> (real \<times> point) option \<Rightarrow>
   point \<Rightarrow>
   (real \<times> point) option \<times> (real \<times> point) option \<times> (real \<times> point) option \<times> (real \<times> point) option" where
  "corner_step bounds st p =
     (case bounds of (min_lat, max_lat, min_lon, max_lon) \<Rightarrow>
      case st of (top_right, top_left, bottom_left, bottom_right) \<Rightarrow>
        let lat = fst p; lon = snd p;
            tr_dist = sqrt ((lat - max_lat)\<^sup>2 + (lon - max_lon)\<^sup>2);
            tl_dist = sqrt ((lat - max_lat)\<^sup>2 + (lon - min_lon)\<^sup>2);
            bl_dist = sqrt ((lat - min_lat)\<^sup>2 + (lon - min_lon)\<^sup>2);
            br_dist = sqrt ((lat - min_lat)\<^sup>2 + (lon - max_lon)\<^sup>2)
        in (closer top_right tr_dist p, closer top_left tl_dist p,
            closer bottom_left bl_dist p, closer bottom_right br_dist p))"

text \<open>The dictionary of corners: a key whose value is \<open>None\<close> in the source is absent
  here, which \<open>corners.get\<close> followed by a truth test does not tell apart.\<close>

definition find_polygon_corners :: "point list \<Rightarrow> py_error + (string \<rightharpoonup> point)" where
  "find_polygon_corners polygon =
     (if length polygon < 3 then Inr Map.empty
      else case get_polygon_bounds polygon of
             Inl e \<Rightarrow> Inl e
           | Inr bounds \<Rightarrow>
               (case foldl (corner_step bounds) (None, None, None, None) polygon of
                  (top_right, top_left, bottom_left, bottom_right) \<Rightarrow>
                    Inr (\<lambda>k. if k = ''top_right'' then map_option snd top_right
                             else if k = ''top_left'' then map_option snd top_left
                             else if k = ''bottom_left'' then map_option snd bottom_left
                             else if k = ''bottom_right'' then map_option snd bottom_right
                             else None)))"

subsection \<open>Segment intersection and clipping\<close>

definition intersection_denom :: "point \<Rightarrow> point \<Rightarrow> point \<Rightarrow> point \<Rightarrow> real" where
  "intersection_denom p1 p2 p3 p4 =
     (fst p1 - fst p2) * (snd p3 - snd p4) - (snd p1 - snd p2) * (fst p3 - fst p4)"

definition intersection_t :: "point \<Rightarrow> point \<Rightarrow> point \<Rightarrow> point \<Rightarrow> real" where
  "intersection_t p1 p2 p3 p4 =
     ((fst p1 - fst p3) * (snd p3 - snd p4) - (snd p1 - snd p3) * (fst p3 - fst p4))
       / intersection_denom p1 p2 p3 p4"

definition intersection_u :: "point \<Rightarrow> point \<Rightarrow> point \<Rightarrow> point \<Rightarrow> real" where
  "intersection_u p1 p2 p3 p4 =
     - ((fst p1 - fst p2) * (snd p1 - snd p3) - (snd p1 - snd p2) * (fst p1 - fst p3))
       / intersection_denom p1 p2 p3 p4"

definition line_intersection :: "point \<Rightarrow> point \<Rightarrow> point \<Rightarrow> point \<Rightarrow> point option" where
  "line_intersection p1 p2 p3 p4 =
     (let denom = intersection_denom p1 p2 p3 p4
      in if \<bar>denom\<bar> < 1 / 10 ^ 10 then None
         else let t = intersection_t p1 p2 p3 p4;
                  u = intersection_u p1 p2 p3 p4
              in if 0 \<le> u \<and> u \<le> 1
                 then Some (fst p1 + t * (fst p2 - fst p1), snd p1 + t * (snd p2 - snd p1))
                 else None)"

text \<open>The first loop of \<open>line_polygon_intersections\<close>: one candidate per edge, the edges
  taken as consecutive vertices with wraparound. A returned tuple is always true in
  Python, so every point found is appended.\<close>

definition edge_intersections :: "point \<Rightarrow> point \<Rightarrow> point list \<Rightarrow> point list" where
  "edge_intersections line_start line_end polygon =
     List.map_filter
       (\<lambda>i. line_intersection line_start line_end
               (polygon ! i) (polygon ! ((i + 1) mod length polygon)))
       [0..<length polygon]"

fun is_duplicate :: "point \<Rightarrow> point list \<Rightarrow> bool" where
  "is_duplicate point [] = False"
| "is_duplicate point (existing # rest) =
     (if \<bar>fst point - fst existing\<bar> < 1 / 10 ^ 8 \<and> \<bar>snd point - snd existing\<bar> < 1 / 10 ^ 8
      then True else is_duplicate point rest)"

definition unique_step :: "point list \<Rightarrow> point \<Rightarrow> point list" where
  "unique_step unique_intersections point =
     (if is_duplicate point unique_intersections then unique_intersections
      else unique_intersections @ [point])"

definition line_polygon_intersections :: "point \<Rightarrow> point \<Rightarrow> point list \<Rightarrow> point list" where
  "line_polygon_intersections line_start line_end polygon =
     foldl unique_step [] (edge_intersections line_start line_end polygon)"

text \<open>The two ends of the probe through a point: 2 km along the bearing and 2 km
  against it.\<close>

definition probe_line :: "real \<Rightarrow> real \<Rightarrow> real \<Rightarrow> point \<times> point" where
  "probe_line point_lat point_lon bearing =
     (let max_extension = 2000
      in (point_at_bearing_and_distance point_lat point_lon bearing max_extension,
          point_at_bearing_and_distance point_lat point_lon
            (py_mod (bearing + 180) 360) max_extension))"

definition get_line_intersections_only :: "real \<Rightarrow> real \<Rightarrow> real \<Rightarrow> point list \<Rightarrow> point list" where
  "get_line_intersections_only point_lat point_lon bearing polygon =
     (case probe_line point_lat point_lon bearing of
        (end1, end2) \<Rightarrow>
          let intersections = line_polygon_intersections end1 end2 polygon
          in if length intersections \<ge> 2
             then sort_key (\<lambda>p. calculate_distance end1 p) intersections
             else [])"

subsection \<open>Scan lines and the outward sweep\<close>

record scan_line =
  offset :: real
  intersections :: "point list"
  start_point :: point
  end_point :: point

text \<open>The local variables of \<open>generate_parallel_lines_to_longest_side\<close> that the sweep
  reads and never writes.\<close>

record sweep_env =
  center_lat :: real
  center_lon :: real
  perp_bearing :: real
  scan_bearing :: real
  buffered_polygon :: "point list"
  spacing_meters :: real
  max_extend :: real

text \<open>The body of the \<open>while\<close> loop below the skip of the centre line: the probe at one
  signed offset, appended to \<open>all_lines\<close> when it is kept.\<close>

definition sweep_body :: "sweep_env \<Rightarrow> real \<Rightarrow> real \<Rightarrow> scan_line list \<Rightarrow> scan_line list" where
  "sweep_body env direction offset_distance all_lines =
     (let offset_point = point_at_bearing_and_distance (center_lat env) (center_lon env)
                           (perp_bearing env) (offset_distance * direction);
          line_intersections = get_line_intersections_only (fst offset_point) (snd offset_point)
                                 (scan_bearing env) (buffered_polygon env)
      in if length line_intersections \<ge> 2
         then let bearing_start_point = offset_point;
                  line_intersections =
                    sort_key (\<lambda>p. calculate_distance bearing_start_point p) line_intersections
              in all_lines @
                   [\<lparr>offset = offset_distance * direction,
                     intersections = line_intersections,
                     start_point = line_intersections ! 0,
                     end_point = last line_intersections\<rparr>]
         else all_lines)"

text \<open>The \<open>while offset_distance <= max_extend\<close> loop of one direction. The state is
  \<open>all_lines\<close> together with a counter of the passes made, which the source does not
  keep: it is there to state how often the loop runs. A loop that never leaves is
  \<open>None\<close>.\<close>

partial_function (option) sweep_while ::
  "sweep_env \<Rightarrow> real \<Rightarrow> real \<Rightarrow> scan_line list \<times> nat \<Rightarrow> (scan_line list \<times> nat) option" where
  "sweep_while env direction offset_distance st =
     (if offset_distance \<le> max_extend env
      then (if offset_distance = 0 \<and> direction = - 1
            then sweep_while env direction (offset_distance + spacing_meters env)
                   (fst st, Suc (snd st))
            else sweep_while env direction (offset_distance + spacing_meters env)
                   (sweep_body env direction offset_distance (fst st), Suc (snd st)))
      else Some st)"

text \<open>\<open>for direction in [-1, 1]\<close>, each direction starting again at offset 0.\<close>

definition sweep :: "sweep_env \<Rightarrow> (scan_line list \<times> nat) option" where
  "sweep env =
     (case sweep_while env (- 1) 0 ([], 0) of
        None \<Rightarrow> None
      | Some st \<Rightarrow> sweep_while env 1 0 st)"

subsection \<open>Ordering the lines into one path\<close>

text \<open>\<open>min(xs, key=f)\<close>: the first element of least key.\<close>

fun min_by :: "('a \<Rightarrow> real) \<Rightarrow> 'a \<Rightarrow> 'a list \<Rightarrow> 'a" where
  "min_by key best [] = best"
| "min_by key best (x # xs) = (if key x < key best then min_by key x xs else min_by key best xs)"

definition startswith :: "string \<Rightarrow> string \<Rightarrow> bool" where
  "startswith s pre = (take (length pre) s = pre)"

text \<open>The line order and the direction of the first line. \<open>self.home_position\<close> is a
  pair or \<open>None\<close>, and a pair is true.\<close>

definition choose_line_order ::
  "point option \<Rightarrow> scan_line list \<Rightarrow> (string \<rightharpoonup> point) \<Rightarrow> nat list \<times> bool" where
  "choose_line_order home_position all_lines corners =
     (let first_line = all_lines ! 0;
          last_line = last all_lines
      in if home_position \<noteq> None \<and> corners ''top_right'' \<noteq> None \<and> corners ''top_left'' \<noteq> None
         then (case corners ''top_right'' of
                 None \<Rightarrow> ([0..<length all_lines], False)
               | Some tr_corner \<Rightarrow>
                   let pattern_starts =
                         [(start_point first_line, ''first_start''),
                          (end_point first_line, ''first_end''),
                          (start_point last_line, ''last_start''),
                          (end_point last_line, ''last_end'')];
                       closest_to_tr =
                         min_by (\<lambda>x. calculate_distance (fst x) tr_corner)
                           (hd pattern_starts) (tl pattern_starts)
                   in if startswith (snd closest_to_tr) ''first''
                      then ([0..<length all_lines], snd closest_to_tr = ''first_end'')
                      else (rev [0..<length all_lines], snd closest_to_tr = ''last_end''))
         else ([0..<length all_lines], False))"

text \<open>One pass of \<open>for i, line_idx in enumerate(line_order)\<close>.\<close>

definition emit_line :: "scan_line list \<Rightarrow> bool \<Rightarrow> point list \<Rightarrow> nat \<times> nat \<Rightarrow> point list" where
  "emit_line all_lines start_from_end waypoints e =
     (case e of (i, line_idx) \<Rightarrow>
        let line = all_lines ! line_idx;
            sp = start_point line;
            ep = end_point line
        in if i = 0
           then (if start_from_end then waypoints @ [ep, sp] else waypoints @ [sp, ep])
           else let prev_end = last waypoints;
                    start_dist = calculate_distance prev_end sp;
                    end_dist = calculate_distance prev_end ep
                in if start_dist < end_dist then waypoints @ [sp, ep]
                   else waypoints @ [ep, sp])"

text \<open>The waypoints before the final check against the home position.\<close>

definition build_waypoints ::
  "point option \<Rightarrow> scan_line list \<Rightarrow> (string \<rightharpoonup> point) \<Rightarrow> point list" where
  "build_waypoints home_position all_lines corners =
     (case choose_line_order home_position all_lines corners of
        (line_order, start_from_end) \<Rightarrow>
          foldl (emit_line all_lines start_from_end) [] (enumerate 0 line_order))"

definition optimize_line_ordering_for_corners ::
  "point option \<Rightarrow> scan_line list \<Rightarrow> (string \<rightharpoonup> point) \<Rightarrow> real \<Rightarrow> point list" where
  "optimize_line_ordering_for_corners home_position all_lines corners bearing =
     (if all_lines = [] then []
      else let waypoints = build_waypoints home_position all_lines corners
           in case home_position of
                None \<Rightarrow> waypoints
              | Some home \<Rightarrow>
                  if length waypoints > 0
                  then let first_to_home = calculate_distance (waypoints ! 0) home;
                           last_to_home = calculate_distance (last waypoints) home
                       in if last_to_home < first_to_home * (8 / 10) then rev waypoints
                          else waypoints
                  else waypoints)"

subsection \<open>The pipeline\<close>

text \<open>\<open>generate_parallel_lines_to_longest_side\<close>, with the fields \<open>spacing\<close>,
  \<open>buffer_distance\<close> and \<open>home_position\<close> of the converter as arguments. \<open>None\<close>: the
  call never returns; \<open>Some (Inl e)\<close>: it raises \<open>e\<close>; \<open>Some (Inr ws)\<close>: it returns
  the waypoints \<open>ws\<close>.\<close>

definition make_env ::
  "real \<Rightarrow> real \<Rightarrow> point list \<Rightarrow> real \<times> real \<times> real \<times> real \<Rightarrow> sweep_env" where
  "make_env spacing bearing buffered bounds =
     (case bounds of (min_lat, max_lat, min_lon, max_lon) \<Rightarrow>
        \<lparr>center_lat = (min_lat + max_lat) / 2,
         center_lon = (min_lon + max_lon) / 2,
         perp_bearing = py_mod (bearing + 90) 360,
         scan_bearing = bearing,
         buffered_polygon = buffered,
         spacing_meters = spacing * 111000,
         max_extend = calculate_distance (min_lat, min_lon) (max_lat, max_lon) / 2\<rparr>)"

text \<open>The part of the function between the length check and the sweep: the buffer,
  the longest side, the corners and the bounding box, each of which can raise.\<close>

definition prepare_sweep ::
  "real \<Rightarrow> real \<Rightarrow> point list \<Rightarrow> py_error + (sweep_env \<times> (string \<rightharpoonup> point))" where
  "prepare_sweep spacing buffer_distance polygon =
     (let buffered = create_buffer_polygon buffer_distance polygon
      in case find_longest_side_with_bearing buffered of
           Inl e \<Rightarrow> Inl e
         | Inr (side_index, side_length, bearing, side_start, side_end) \<Rightarrow>
             (case find_polygon_corners buffered of
                Inl e \<Rightarrow> Inl e
              | Inr corners \<Rightarrow>
                  (case get_polygon_bounds buffered of
                     Inl e \<Rightarrow> Inl e
                   | Inr bounds \<Rightarrow> Inr (make_env spacing bearing buffered bounds, corners))))"

definition generate_parallel_lines_to_longest_side ::
  "real \<Rightarrow> real \<Rightarrow> point option \<Rightarrow> point list \<Rightarrow> (py_error + point list) option" where
  "generate_parallel_lines_to_longest_side spacing buffer_distance home_position polygon =
     (if length polygon < 3 then Some (Inr [])
      else case prepare_sweep spacing buffer_distance polygon of
             Inl e \<Rightarrow> Some (Inl e)
           | Inr (env, corners) \<Rightarrow>
               (case sweep env of
                  None \<Rightarrow> None
                | Some (all_lines, passes) \<Rightarrow>
                    Some (Inr (optimize_line_ordering_for_corners home_position
                                 (sort_key offset all_lines) corners (scan_bearing env)))))"

subsection \<open>Notions used to state the properties\<close>

text \<open>The two waypoints one scan line contributes, in one of its two directions.\<close>

definition line_pair :: "bool \<Rightarrow> scan_line \<Rightarrow> point list" where
  "line_pair flipped line =
     (if flipped then [end_point line, start_point line] else [start_point line, end_point line])"

text \<open>What the loop body clips at one signed offset: the probe through the offset
  point, against the buffered polygon.\<close>

definition probe_clip :: "sweep_env \<Rightarrow> real \<Rightarrow> real \<Rightarrow> point list" where
  "probe_clip env direction offset_distance =
     (let offset_point = point_at_bearing_and_distance (center_lat env) (center_lon env)
                           (perp_bearing env) (offset_distance * direction)
      in case probe_line (fst offset_point) (snd offset_point) (scan_bearing env) of
           (end1, end2) \<Rightarrow> line_polygon_intersections end1 end2 (buffered_polygon env))"

text \<open>The duplicate test of \<open>line_polygon_intersections\<close>, and lists without duplicates
  in its sense.\<close>

definition near :: "point \<Rightarrow> point \<Rightarrow> bool" where
  "near p q = (\<bar>fst p - fst q\<bar> < 1 / 10 ^ 8 \<and> \<bar>snd p - snd q\<bar> < 1 / 10 ^ 8)"

definition far_apart :: "point list \<Rightarrow> bool" where
  "far_apart ps = (distinct ps \<and> (\<forall>x\<in>set ps. \<forall>y\<in>set ps. x \<noteq> y \<longrightarrow> \<not> near x y))"

text \<open>On which side of the line through \<open>p1\<close> and \<open>p2\<close> a point lies: the sign of
  this number, which is the numerator of \<open>u\<close> up to its sign.\<close>

definition side_of_line :: "point \<Rightarrow> point \<Rightarrow> point \<Rightarrow> real" where
  "side_of_line p1 p2 q =
     (fst p1 - fst p2) * (snd p1 - snd q) - (snd p1 - snd p2) * (fst p1 - fst q)"

text \<open>The four corners of a bounding box.\<close>

definition box_corners :: "real \<times> real \<times> real \<times> real \<Rightarrow> point list" where
  "box_corners bounds =
     (case bounds of (min_lat, max_lat, min_lon, max_lon) \<Rightarrow>
        [(min_lat, min_lon), (min_lat, max_lon), (max_lat, min_lon), (max_lat, max_lon)])"

text \<open>The sides of a polygon, as \<open>find_longest_side_with_bearing\<close> walks them: length,
  bearing, and what the function returns for side \<open>i\<close>. Side \<open>i\<close> is the first longest
  among the first \<open>k\<close> sides when none of them is longer and every earlier one is
  strictly shorter.\<close>

definition side_length :: "point list \<Rightarrow> nat \<Rightarrow> real" where
  "side_length polygon i =
     calculate_distance (polygon ! i) (polygon ! ((i + 1) mod length polygon))"

definition side_bearing :: "point list \<Rightarrow> nat \<Rightarrow> real" where
  "side_bearing polygon i =
     edge_bearing (polygon ! i) (polygon ! ((i + 1) mod length polygon))"

definition first_longest :: "point list \<Rightarrow> nat \<Rightarrow> nat \<Rightarrow> bool" where
  "first_longest polygon k i =
     (i < k \<and> (\<forall>j<k. side_length polygon j \<le> side_length polygon i) \<and>
      (\<forall>j<i. side_length polygon j < side_length polygon i))"

definition side_record :: "point list \<Rightarrow> nat \<Rightarrow> longest_side" where
  "side_record polygon i =
     (i, side_length polygon i, side_bearing polygon i,
      polygon ! i, polygon ! ((i + 1) mod length polygon))"

text \<open>How often the loop of one direction runs when it starts at an offset, for a
  positive spacing.\<close>

definition passes_from :: "sweep_env \<Rightarrow> real \<Rightarrow> nat" where
  "passes_from env offset_distance =
     (if offset_distance \<le> max_extend env
      then nat \<lfloor>(max_extend env - offset_distance) / spacing_meters env\<rfloor> + 1
      else 0)"

text \<open>A probe is retained when its clip has two points or more, and a pass of the loop
  appends a line when it is not the skipped one and its probe is retained. Retention
  is downward closed when, on each side of the centre, a retained offset up to
  \<open>max_extend\<close> makes every smaller offset retained.\<close>

definition retained :: "sweep_env \<Rightarrow> real \<Rightarrow> real \<Rightarrow> bool" where
  "retained env direction offset_distance =
     (2 \<le> length (probe_clip env direction offset_distance))"

definition appended :: "sweep_env \<Rightarrow> real \<Rightarrow> real \<Rightarrow> nat" where
  "appended env direction offset_distance =
     (if \<not> (offset_distance = 0 \<and> direction = - 1) \<and> retained env direction offset_distance
      then 1 else 0)"





text \<open>A C-shaped field, open to the east, and the parameters of the sweep across
  it.\<close>

definition notched_field :: "point list" where
  "notched_field =
     [(- (1 / 100), - (1 / 200)), (1 / 100, - (1 / 200)), (1 / 100, 1 / 200), (1 / 200, 1 / 200),
      (1 / 200, - (1 / 400)), (- (1 / 400), - (1 / 400)), (- (1 / 400), 1 / 200),
      (- (1 / 200), 1 / 200)]"

definition notched_env :: "real \<Rightarrow> sweep_env" where
  "notched_env spacing =
     \<lparr>center_lat = 0, center_lon = 0, perp_bearing = 90, scan_bearing = 0,
      buffered_polygon = notched_field, spacing_meters = spacing * 111000,
      max_extend = calculate_distance (- (1 / 100), - (1 / 200)) (1 / 100, 1 / 200) / 2\<rparr>"

section \<open>Properties\<close>

subsection \<open>The inward buffer\<close>

lemma buffer_vertex_moved:
  assumes "plane_dist p c > 0"
  shows "buffer_vertex d c p =
           (fst p + (d / plane_dist p c) * (fst c - fst p),
            snd p + (d / plane_dist p c) * (snd c - snd p))"
  using assms by (simp add: buffer_vertex_def plane_dist_def Let_def)

lemma buffer_vertex_fixed: "plane_dist p c = 0 \<Longrightarrow> buffer_vertex d c p = p"
  by (simp add: buffer_vertex_def plane_dist_def Let_def)

lemma plane_dist_nonneg: "0 \<le> plane_dist p c"
  by (simp add: plane_dist_def)

lemma scaled_sq: "(a - k * a)\<^sup>2 + (b - k * b)\<^sup>2 = (1 - k)\<^sup>2 * (a\<^sup>2 + b\<^sup>2)" for a b k :: real
  by (simp add: algebra_simps power2_eq_square)

lemma buffer_vertex_to_center:
  assumes "plane_dist p c > 0"
  shows "plane_dist (buffer_vertex d c p) c = \<bar>plane_dist p c - d\<bar>"
proof -
  let ?r = "plane_dist p c"
  let ?a = "fst c - fst p" and ?b = "snd c - snd p"
  have r2: "?r\<^sup>2 = ?a\<^sup>2 + ?b\<^sup>2"
    by (simp add: plane_dist_def)
  have "(fst c - (fst p + (d / ?r) * ?a))\<^sup>2 + (snd c - (snd p + (d / ?r) * ?b))\<^sup>2
      = (?a - (d / ?r) * ?a)\<^sup>2 + (?b - (d / ?r) * ?b)\<^sup>2"
    by (simp add: algebra_simps)
  also have "\<dots> = (1 - d / ?r)\<^sup>2 * ?r\<^sup>2"
    unfolding r2 by (rule scaled_sq)
  also have "\<dots> = ((1 - d / ?r) * ?r)\<^sup>2"
    by (simp add: power_mult_distrib)
  also have "(1 - d / ?r) * ?r = ?r - d"
    using assms by (simp add: field_simps)
  finally have "sqrt ((fst c - (fst p + (d / ?r) * ?a))\<^sup>2 +
                      (snd c - (snd p + (d / ?r) * ?b))\<^sup>2) = \<bar>?r - d\<bar>"
    by simp
  then show ?thesis
    unfolding buffer_vertex_moved[OF assms] by (simp add: plane_dist_def)
qed

lemma buffer_vertex_from_old:
  assumes "plane_dist p c > 0"
  shows "plane_dist p (buffer_vertex d c p) = \<bar>d\<bar>"
proof -
  let ?r = "plane_dist p c"
  let ?a = "fst c - fst p" and ?b = "snd c - snd p"
  have r2: "?r\<^sup>2 = ?a\<^sup>2 + ?b\<^sup>2"
    by (simp add: plane_dist_def)
  have "((d / ?r) * ?a)\<^sup>2 + ((d / ?r) * ?b)\<^sup>2 = (d / ?r)\<^sup>2 * (?a\<^sup>2 + ?b\<^sup>2)"
    by (simp only: power_mult_distrib distrib_left)
  also have "\<dots> = (d / ?r)\<^sup>2 * ?r\<^sup>2"
    by (simp only: r2)
  also have "\<dots> = ((d / ?r) * ?r)\<^sup>2"
    by (simp only: power_mult_distrib)
  also have "(d / ?r) * ?r = d"
    using assms by simp
  finally have "sqrt (((d / ?r) * ?a)\<^sup>2 + ((d / ?r) * ?b)\<^sup>2) = \<bar>d\<bar>"
    by simp
  then show ?thesis
    unfolding buffer_vertex_moved[OF assms] by (simp add: plane_dist_def)
qed

text \<open>
  C1 (as amended). For a polygon of at least three vertices and a buffer distance
  \<open>d \<ge> 0\<close>, every vertex \<open>v\<close> at distance \<open>r > 0\<close> from the arithmetic-mean centroid
  \<open>c\<close> is translated by exactly \<open>d\<close> along the unit vector toward \<open>c\<close>, and ends at
  distance \<open>\<bar>r - d\<bar>\<close> from \<open>c\<close>: on the segment from \<open>v\<close> to \<open>c\<close> when \<open>d \<le> r\<close>, and
  \<open>d - r\<close> beyond \<open>c\<close> otherwise. Only a vertex that coincides with the centroid stays
  where it is.
\<close>

theorem create_buffer_polygon_translates:
  assumes "3 \<le> length polygon" and "0 \<le> d" and "i < length polygon"
  shows "let c = polygon_centroid polygon;
             v = polygon ! i;
             w = create_buffer_polygon d polygon ! i;
             r = plane_dist v c
         in length (create_buffer_polygon d polygon) = length polygon \<and>
            (if r = 0 then w = v
             else w = (fst v + (d / r) * (fst c - fst v), snd v + (d / r) * (snd c - snd v)) \<and>
                  plane_dist v w = d \<and>
                  plane_dist w c = \<bar>r - d\<bar> \<and>
                  (if d \<le> r then plane_dist v w + plane_dist w c = r
                   else plane_dist w c = d - r))"
proof -
  let ?c = "polygon_centroid polygon"
  let ?v = "polygon ! i"
  have w: "create_buffer_polygon d polygon ! i = buffer_vertex d ?c ?v"
    using assms by (simp add: create_buffer_polygon_def)
  have len: "length (create_buffer_polygon d polygon) = length polygon"
    by (simp add: create_buffer_polygon_def)
  show ?thesis
  proof (cases "plane_dist ?v ?c = 0")
    case True
    then show ?thesis
      using len w buffer_vertex_fixed[OF True] by (simp add: Let_def)
  next
    case False
    then have pos: "plane_dist ?v ?c > 0"
      using plane_dist_nonneg[of ?v ?c] by linarith
    show ?thesis
      using False len assms(2)
      unfolding Let_def w buffer_vertex_to_center[OF pos] buffer_vertex_from_old[OF pos]
      by (simp add: buffer_vertex_moved[OF pos])
  qed
qed

theorem create_buffer_polygon_translates_witness:
  "create_buffer_polygon 1 [(2,0),(0,2),(-2,0),(0,-2)] ! 0 = (1, 0) \<and>
   plane_dist (2,0) (create_buffer_polygon 1 [(2,0),(0,2),(-2,0),(0,-2)] ! 0) = 1 \<and>
   plane_dist (create_buffer_polygon 1 [(2,0),(0,2),(-2,0),(0,-2)] ! 0) (0,0) = 1"
  using create_buffer_polygon_translates[of "[(2,0),(0,2),(-2,0),(0,-2)]" 1 0]
  by (simp add: polygon_centroid_def plane_dist_def Let_def)

text \<open>
  C1 as stated fails: in the square with vertices at distance 1 from the centroid
  \<open>(0, 0)\<close>, buffered by 2, the vertex \<open>(1, 0)\<close> lies within the buffer distance of the
  centroid and is still moved, to \<open>(-1, 0)\<close> on the far side of the centroid.
\<close>

theorem create_buffer_polygon_overshoot:
  "polygon_centroid [(1,0),(0,1),(-1,0),(0,-1)] = (0, 0) \<and>
   plane_dist (1,0) (0,0) \<le> 2 \<and>
   create_buffer_polygon 2 [(1,0),(0,1),(-1,0),(0,-1)] ! 0 = (-1, 0)"
  by (simp add: create_buffer_polygon_def polygon_centroid_def buffer_vertex_def plane_dist_def)

subsection \<open>The haversine distance\<close>

text \<open>The argument of the haversine formula lies in \<open>[0, 1]\<close> for all inputs, so the
  square roots of \<open>calculate_distance\<close> are taken of non-negative reals: the
  \<open>ValueError\<close> of \<open>math.sqrt\<close> cannot occur in this model. The distance grows
  strictly with that argument, so distances compare as their arguments do.\<close>

lemma radians_diff: "radians (x - y) = radians x - radians y"
  by (simp add: radians_def diff_divide_distrib left_diff_distrib)

lemma sin_half_squared: "(sin (x / 2))\<^sup>2 = (1 - cos x) / 2" for x :: real
  using cos_double_sin[of "x / 2"] by simp

lemma cos_times_cos: "cos x * cos y = (cos (y - x) + cos (x + y)) / 2" for x y :: real
  by (simp add: cos_add cos_diff)

lemma haversine_a_convex:
  "haversine_a p q =
     (1 - (sin (radians (snd q - snd p) / 2))\<^sup>2) * ((1 - cos (radians (fst q) - radians (fst p))) / 2) +
     (sin (radians (snd q - snd p) / 2))\<^sup>2 * ((1 + cos (radians (fst p) + radians (fst q))) / 2)"
  unfolding haversine_a_def Let_def radians_diff[of "fst q" "fst p"] sin_half_squared[of "radians (fst q) - radians (fst p)"]
    cos_times_cos[of "radians (fst p)" "radians (fst q)"]
  by (simp add: field_simps)

lemma convex_unit:
  fixes t u v :: real
  assumes "0 \<le> t" "t \<le> 1" "0 \<le> u" "u \<le> 1" "0 \<le> v" "v \<le> 1"
  shows "0 \<le> (1 - t) * u + t * v" and "(1 - t) * u + t * v \<le> 1"
proof -
  show "0 \<le> (1 - t) * u + t * v" using assms by simp
  have "(1 - t) * u \<le> (1 - t) * 1" using assms by (intro mult_left_mono) simp_all
  moreover have "t * v \<le> t * 1" using assms by (intro mult_left_mono) simp_all
  ultimately show "(1 - t) * u + t * v \<le> 1" by simp
qed

lemma sin_squared_unit: "0 \<le> (sin x)\<^sup>2" "(sin x)\<^sup>2 \<le> 1" for x :: real
  using abs_sin_le_one[of x] by (simp_all add: abs_square_le_1)

lemma half_unit:
  fixes c :: real
  assumes "- 1 \<le> c" "c \<le> 1"
  shows "0 \<le> (1 - c) / 2" "(1 - c) / 2 \<le> 1" "0 \<le> (1 + c) / 2" "(1 + c) / 2 \<le> 1"
  using assms by simp_all

lemma haversine_a_bounds: "0 \<le> haversine_a p q" "haversine_a p q \<le> 1"
proof -
  let ?t = "(sin (radians (snd q - snd p) / 2))\<^sup>2"
  let ?u = "(1 - cos (radians (fst q) - radians (fst p))) / 2"
  let ?v = "(1 + cos (radians (fst p) + radians (fst q))) / 2"
  have u: "0 \<le> ?u" "?u \<le> 1"
    by (rule half_unit[OF cos_ge_minus_one cos_le_one])+
  have v: "0 \<le> ?v" "?v \<le> 1"
    by (rule half_unit[OF cos_ge_minus_one cos_le_one])+
  show "0 \<le> haversine_a p q" "haversine_a p q \<le> 1"
    unfolding haversine_a_convex
    using convex_unit[OF sin_squared_unit u v] by simp_all
qed

lemma atan2_sqrt_range:
  assumes "0 \<le> a" "a \<le> 1"
  shows "0 \<le> atan2 (sqrt a) (sqrt (1 - a))" "atan2 (sqrt a) (sqrt (1 - a)) \<le> pi / 2"
proof -
  show "0 \<le> atan2 (sqrt a) (sqrt (1 - a))"
    using assms by (auto simp add: atan2_def)
  show "atan2 (sqrt a) (sqrt (1 - a)) \<le> pi / 2"
    using assms arctan_ubound[of "sqrt a / sqrt (1 - a)"]
    by (auto simp add: atan2_def less_imp_le)
qed

lemma atan2_sqrt_strict_mono:
  assumes "0 \<le> a" "a < b" "b \<le> 1"
  shows "atan2 (sqrt a) (sqrt (1 - a)) < atan2 (sqrt b) (sqrt (1 - b))"
proof (cases "b = 1")
  case True
  have "atan2 (sqrt a) (sqrt (1 - a)) = arctan (sqrt a / sqrt (1 - a))"
    using assms True by (simp add: atan2_def)
  moreover have "atan2 (sqrt b) (sqrt (1 - b)) = pi / 2"
    using True by (simp add: atan2_def)
  ultimately show ?thesis
    using arctan_ubound[of "sqrt a / sqrt (1 - a)"] by simp
next
  case False
  then have b1: "b < 1" using assms by simp
  have "sqrt a / sqrt (1 - a) < sqrt b / sqrt (1 - b)"
    using assms b1 by (intro frac_less) simp_all
  then show ?thesis
    using assms b1 by (simp add: atan2_def arctan_monotone)
qed

lemma calculate_distance_nonneg: "0 \<le> calculate_distance p q"
  using atan2_sqrt_range(1)[OF haversine_a_bounds, of p q]
  by (simp add: calculate_distance_def Let_def)

lemma calculate_distance_less_iff:
  "calculate_distance p q < calculate_distance p' q' \<longleftrightarrow> haversine_a p q < haversine_a p' q'"
proof -
  let ?g = "\<lambda>a. atan2 (sqrt a) (sqrt (1 - a))"
  have mono: "?g a < ?g b" if "0 \<le> a" "a < b" "b \<le> 1" for a b
    using that by (rule atan2_sqrt_strict_mono)
  have "?g (haversine_a p q) < ?g (haversine_a p' q') \<longleftrightarrow> haversine_a p q < haversine_a p' q'"
  proof
    assume l: "?g (haversine_a p q) < ?g (haversine_a p' q')"
    show "haversine_a p q < haversine_a p' q'"
    proof (rule ccontr)
      assume "\<not> haversine_a p q < haversine_a p' q'"
      then consider "haversine_a p' q' = haversine_a p q" | "haversine_a p' q' < haversine_a p q"
        by linarith
      then show False
      proof cases
        case 1 then show False using l by simp
      next
        case 2
        from mono[OF haversine_a_bounds(1) 2 haversine_a_bounds(2)] l show False by simp
      qed
    qed
  next
    assume "haversine_a p q < haversine_a p' q'"
    then show "?g (haversine_a p q) < ?g (haversine_a p' q')"
      by (intro mono haversine_a_bounds)
  qed
  then show ?thesis
    by (simp add: calculate_distance_def Let_def)
qed

lemma calculate_distance_zero_iff: "calculate_distance p q = 0 \<longleftrightarrow> haversine_a p q = 0"
proof -
  have z: "calculate_distance p p = 0" for p
    by (simp add: calculate_distance_def haversine_a_def atan2_def radians_def)
  have az: "haversine_a p p = 0" for p
    by (simp add: haversine_a_def radians_def)
  show ?thesis
    using calculate_distance_less_iff[of p p p q] calculate_distance_nonneg[of p q]
      haversine_a_bounds(1)[of p q]
    by (simp add: z az) linarith
qed

subsection \<open>Segment intersection\<close>

text \<open>
  C6. \<open>line_intersection\<close> returns no point exactly when the denominator is below
  \<open>1e-10\<close> in absolute value or the parameter \<open>u\<close> of the polygon edge is outside
  \<open>[0, 1]\<close>. The parameter \<open>t\<close> of the scan line is not tested: the point returned is
  \<open>p1 + t (p2 - p1)\<close> whatever \<open>t\<close> is, and every real \<open>\<tau>\<close> is the \<open>t\<close> of a
  returned point.
\<close>

theorem line_intersection_none_iff:
  "(line_intersection p1 p2 p3 p4 = None) =
     (\<bar>intersection_denom p1 p2 p3 p4\<bar> < 1 / 10 ^ 10 \<or>
      intersection_u p1 p2 p3 p4 < 0 \<or> 1 < intersection_u p1 p2 p3 p4) \<and>
   line_intersection p1 p2 p3 p4 =
     (if \<bar>intersection_denom p1 p2 p3 p4\<bar> < 1 / 10 ^ 10 \<or>
         intersection_u p1 p2 p3 p4 < 0 \<or> 1 < intersection_u p1 p2 p3 p4
      then None
      else Some (fst p1 + intersection_t p1 p2 p3 p4 * (fst p2 - fst p1),
                 snd p1 + intersection_t p1 p2 p3 p4 * (snd p2 - snd p1))) \<and>
   (\<forall>\<tau>. intersection_t (0, 0) (1, 0) (\<tau>, - 1) (\<tau>, 1) = \<tau> \<and>
        line_intersection (0, 0) (1, 0) (\<tau>, - 1) (\<tau>, 1) = Some (\<tau>, 0))"
  by (auto simp add: line_intersection_def Let_def intersection_denom_def intersection_t_def
      intersection_u_def)

theorem line_intersection_none_iff_witness:
  "line_intersection (0, 0) (1, 0) (5, - 1) (5, 1) = Some (5, 0) \<and>
   line_intersection (0, 0) (1, 0) (0, 1) (1, 1) = None \<and>
   line_intersection (0, 0) (1, 0) (5, 1) (5, 2) = None"
  using line_intersection_none_iff[of "(0, 0)" "(1, 0)" "(5, - 1)" "(5, 1)"]
    line_intersection_none_iff[of "(0, 0)" "(1, 0)" "(0, 1)" "(1, 1)"]
    line_intersection_none_iff[of "(0, 0)" "(1, 0)" "(5, 1)" "(5, 2)"]
  by (simp add: intersection_denom_def intersection_t_def intersection_u_def)

subsection \<open>The path orderer\<close>

lemma length_emit_line: "length (emit_line all_lines sfe ws e) = length ws + 2"
  by (cases e) (simp add: emit_line_def Let_def)

lemma length_foldl_emit_line:
  "length (foldl (emit_line all_lines sfe) ws es) = length ws + 2 * length es"
  by (induction es arbitrary: ws) (simp_all add: length_emit_line)

lemma length_choose_line_order:
  "length (fst (choose_line_order home all_lines corners)) = length all_lines"
  by (simp add: choose_line_order_def Let_def split: option.splits)

lemma length_build_waypoints:
  "length (build_waypoints home all_lines corners) = 2 * length all_lines"
  using length_choose_line_order[of home all_lines corners]
  by (cases "choose_line_order home all_lines corners")
     (simp add: build_waypoints_def length_foldl_emit_line)

lemma length_optimize:
  "length (optimize_line_ordering_for_corners home all_lines corners bearing) = 2 * length all_lines"
  by (simp add: optimize_line_ordering_for_corners_def Let_def length_build_waypoints
      split: option.splits)

lemma radians_0: "radians 0 = 0" by (simp add: radians_def)

lemma cos_one_degree: "0 < cos (radians 1)"
  by (rule cos_gt_zero_pi) (simp_all add: radians_def, (simp add: field_simps)?)

lemma turn_back: "\<not> calculate_distance (0, 1) (1, 0) < calculate_distance (0, 1) (1, 1)"
  unfolding calculate_distance_less_iff
  using cos_one_degree by (simp add: haversine_a_def radians_0 not_less)

lemma sin_half_degree: "0 < sin (radians 1 / 2)"
proof (rule sin_gt_zero)
  show "0 < radians 1 / 2" by (simp add: radians_def)
  have "pi / 360 < pi" by simp
  then show "radians 1 / 2 < pi" by (simp add: radians_def)
qed

lemma leg_positive: "0 < calculate_distance (0, 0) (1, 0)"
proof -
  have "haversine_a (1, 0) (1, 0) < haversine_a (0, 0) (1, 0)"
    using sin_half_degree by (simp add: haversine_a_def radians_0)
  then have "calculate_distance (1, 0) (1, 0) < calculate_distance (0, 0) (1, 0)"
    by (simp only: calculate_distance_less_iff)
  moreover have "calculate_distance (1, 0) (1, 0) = 0"
    by (simp add: calculate_distance_zero_iff haversine_a_def radians_0)
  ultimately show ?thesis by simp
qed

lemma two_lines_built:
  "build_waypoints home
     [\<lparr>offset = 0, intersections = [(0,0),(0,1)], start_point = (0,0), end_point = (0,1)\<rparr>,
      \<lparr>offset = 1, intersections = [(1,0),(1,1)], start_point = (1,0), end_point = (1,1)\<rparr>]
     Map.empty = [(0,0),(0,1),(1,1),(1,0)]"
  using turn_back
  by (simp add: build_waypoints_def choose_line_order_def enumerate_eq_zip upt_rec emit_line_def)

text \<open>
  C4. With a home position, the waypoints built are returned reversed exactly when the
  distance from the last of them to home is less than 0.8 times the distance from the
  first of them to home, and as built otherwise; without a home position they are
  returned as built.
\<close>

theorem home_reversal_rule:
  "optimize_line_ordering_for_corners (Some home) all_lines corners bearing =
     (let waypoints = build_waypoints (Some home) all_lines corners
      in if calculate_distance (last waypoints) home
              < (8 / 10) * calculate_distance (hd waypoints) home
         then rev waypoints else waypoints) \<and>
   optimize_line_ordering_for_corners None all_lines corners bearing =
     build_waypoints None all_lines corners"
proof (cases "all_lines = []")
  case True
  then show ?thesis
    by (simp add: optimize_line_ordering_for_corners_def build_waypoints_def
        choose_line_order_def Let_def split: option.splits)
next
  case False
  have "build_waypoints (Some home) all_lines corners \<noteq> []"
    using False length_build_waypoints[of "Some home" all_lines corners] by auto
  then show ?thesis
    using False
    by (simp add: optimize_line_ordering_for_corners_def Let_def hd_conv_nth mult.commute)
qed

theorem home_reversal_rule_witness:
  "optimize_line_ordering_for_corners (Some (1, 0))
     [\<lparr>offset = 0, intersections = [(0,0),(0,1)], start_point = (0,0), end_point = (0,1)\<rparr>,
      \<lparr>offset = 1, intersections = [(1,0),(1,1)], start_point = (1,0), end_point = (1,1)\<rparr>]
     Map.empty 0 = [(1,0),(1,1),(0,1),(0,0)] \<and>
   optimize_line_ordering_for_corners (Some (0, 0))
     [\<lparr>offset = 0, intersections = [(0,0),(0,1)], start_point = (0,0), end_point = (0,1)\<rparr>,
      \<lparr>offset = 1, intersections = [(1,0),(1,1)], start_point = (1,0), end_point = (1,1)\<rparr>]
     Map.empty 0 = [(0,0),(0,1),(1,1),(1,0)]"
proof -
  let ?ls = "[\<lparr>offset = 0, intersections = [(0,0),(0,1)], start_point = (0,0), end_point = (0,1)\<rparr>,
      \<lparr>offset = 1, intersections = [(1,0),(1,1)], start_point = (1,0), end_point = (1,1)\<rparr>]"
  have z: "calculate_distance p p = 0" for p
    by (simp add: calculate_distance_zero_iff haversine_a_def radians_0)
  have nn: "\<not> calculate_distance (1, 0) (0, 0) < 0"
    using calculate_distance_nonneg[of "(1, 0)" "(0, 0)"] by simp
  show ?thesis
    using leg_positive nn
      home_reversal_rule[of "(1, 0)" ?ls Map.empty 0]
      home_reversal_rule[of "(0, 0)" ?ls Map.empty 0]
    by (simp add: two_lines_built z)
qed

lemma emit_line_first:
  "emit_line all_lines False ws (0, l) = ws @ [start_point (all_lines ! l), end_point (all_lines ! l)]"
  by (simp add: emit_line_def Let_def)

lemma emit_line_later:
  "0 < i \<Longrightarrow> emit_line all_lines sfe ws (i, l) =
     ws @ (if calculate_distance (last ws) (start_point (all_lines ! l))
              < calculate_distance (last ws) (end_point (all_lines ! l))
           then [start_point (all_lines ! l), end_point (all_lines ! l)]
           else [end_point (all_lines ! l), start_point (all_lines ! l)])"
  by (simp add: emit_line_def Let_def)

lemma emit_line_append: "\<exists>ab. emit_line all_lines sfe ws e = ws @ ab"
  by (cases e) (simp add: emit_line_def Let_def)

lemma fallback_unfold:
  "foldl (emit_line all_lines sfe) [] (enumerate 0 [0..<Suc n]) =
     emit_line all_lines sfe (foldl (emit_line all_lines sfe) [] (enumerate 0 [0..<n])) (n, n)"
  by (simp add: enumerate_append_eq)

lemma fallback_take:
  "n \<le> m \<Longrightarrow>
     take (2 * n) (foldl (emit_line all_lines sfe) [] (enumerate 0 [0..<m])) =
       foldl (emit_line all_lines sfe) [] (enumerate 0 [0..<n])"
proof (induction m)
  case 0
  then show ?case by simp
next
  case (Suc m)
  show ?case
  proof (cases "n = Suc m")
    case True
    then show ?thesis
      using length_foldl_emit_line[of all_lines sfe "[]" "enumerate 0 [0..<Suc m]"]
      by simp
  next
    case False
    then have le: "n \<le> m" using Suc.prems by simp
    let ?W = "foldl (emit_line all_lines sfe) [] (enumerate 0 [0..<m])"
    have len: "length ?W = 2 * m"
      using length_foldl_emit_line[of all_lines sfe "[]" "enumerate 0 [0..<m]"] by simp
    obtain ab where ab: "emit_line all_lines sfe ?W (m, m) = ?W @ ab"
      using emit_line_append by blast
    have "take (2 * n) (?W @ ab) = take (2 * n) ?W"
      using le len by simp
    then show ?thesis
      unfolding fallback_unfold ab using Suc.IH[OF le] by simp
  qed
qed

lemma fallback_nth:
  fixes all_lines :: "scan_line list" and i n :: nat
  assumes "i < n"
  defines "W \<equiv> foldl (emit_line all_lines False) [] (enumerate 0 [0..<n])"
  shows "(W ! (2 * i), W ! (2 * i + 1)) =
           (if i = 0 \<or> calculate_distance (W ! (2 * i - 1)) (start_point (all_lines ! i))
                        < calculate_distance (W ! (2 * i - 1)) (end_point (all_lines ! i))
            then (start_point (all_lines ! i), end_point (all_lines ! i))
            else (end_point (all_lines ! i), start_point (all_lines ! i)))"
proof -
  let ?V = "\<lambda>k. foldl (emit_line all_lines False) [] (enumerate 0 [0..<k])"
  have lenV: "length (?V k) = 2 * k" for k
    using length_foldl_emit_line[of all_lines False "[]" "enumerate 0 [0..<k]"] by simp
  have tk: "take (2 * k) W = ?V k" if "k \<le> n" for k
    unfolding W_def using that by (rule fallback_take)
  have nth_eq: "W ! j = ?V k ! j" if "k \<le> n" "j < 2 * k" for j k
    using tk[OF that(1)] that(2) by (metis nth_take)
  have Si: "Suc i \<le> n" and i: "i \<le> n" using assms(1) by simp_all
  have a: "W ! (2 * i) = ?V (Suc i) ! (2 * i)" and b: "W ! (2 * i + 1) = ?V (Suc i) ! (2 * i + 1)"
    by (rule nth_eq[OF Si]; simp)+
  show ?thesis
  proof (cases "i = 0")
    case True
    then show ?thesis
      unfolding a b by (simp add: emit_line_first enumerate_eq_zip)
  next
    case False
    then have pos: "0 < i" by simp
    have l: "last (?V i) = W ! (2 * i - 1)"
    proof -
      have "?V i \<noteq> []" using lenV[of i] pos by auto
      then have "last (?V i) = ?V i ! (2 * i - 1)"
        using lenV[of i] by (simp add: last_conv_nth)
      also have "\<dots> = W ! (2 * i - 1)"
        using nth_eq[OF i, of "2 * i - 1"] pos by simp
      finally show ?thesis .
    qed
    have V: "?V (Suc i) = ?V i @
        (if calculate_distance (W ! (2 * i - 1)) (start_point (all_lines ! i))
              < calculate_distance (W ! (2 * i - 1)) (end_point (all_lines ! i))
         then [start_point (all_lines ! i), end_point (all_lines ! i)]
         else [end_point (all_lines ! i), start_point (all_lines ! i)])"
      unfolding fallback_unfold emit_line_later[OF pos] l ..
    show ?thesis
      unfolding a b V using False lenV[of i] by (simp add: nth_append)
  qed
qed

lemma optimize_fallback:
  "optimize_line_ordering_for_corners None all_lines corners bearing =
     foldl (emit_line all_lines False) [] (enumerate 0 [0..<length all_lines])"
  by (simp add: optimize_line_ordering_for_corners_def build_waypoints_def choose_line_order_def)

text \<open>
  C2 (as amended). Without a home position the lines, sorted by offset as
  \<open>generate_parallel_lines_to_longest_side\<close> sorts them, are emitted in that order, two
  waypoints each. The first line is emitted as (start, end); every later line is
  emitted as (start, end) when its start is strictly nearer to the previous waypoint
  than its end, and as (end, start) otherwise.
\<close>

theorem fallback_order_and_orientation:
  "let sorted_lines = sort_key offset all_lines;
       ws = optimize_line_ordering_for_corners None sorted_lines corners bearing
   in sorted (map offset sorted_lines) \<and>
      mset sorted_lines = mset all_lines \<and>
      length ws = 2 * length all_lines \<and>
      (\<forall>i<length sorted_lines.
         (ws ! (2 * i), ws ! (2 * i + 1)) =
           (if i = 0 \<or> calculate_distance (ws ! (2 * i - 1)) (start_point (sorted_lines ! i))
                        < calculate_distance (ws ! (2 * i - 1)) (end_point (sorted_lines ! i))
            then (start_point (sorted_lines ! i), end_point (sorted_lines ! i))
            else (end_point (sorted_lines ! i), start_point (sorted_lines ! i))))"
  unfolding Let_def
proof (intro conjI allI impI)
  show "sorted (map offset (sort_key offset all_lines))" by simp
  show "mset (sort_key offset all_lines) = mset all_lines" by simp
  show "length (optimize_line_ordering_for_corners None (sort_key offset all_lines) corners bearing)
          = 2 * length all_lines"
    by (simp add: length_optimize)
next
  fix i assume "i < length (sort_key offset all_lines)"
  then show "(optimize_line_ordering_for_corners None (sort_key offset all_lines) corners bearing ! (2 * i),
          optimize_line_ordering_for_corners None (sort_key offset all_lines) corners bearing ! (2 * i + 1)) =
         (if i = 0 \<or> calculate_distance (optimize_line_ordering_for_corners None (sort_key offset all_lines) corners bearing ! (2 * i - 1)) (start_point (sort_key offset all_lines ! i))
                        < calculate_distance (optimize_line_ordering_for_corners None (sort_key offset all_lines) corners bearing ! (2 * i - 1)) (end_point (sort_key offset all_lines ! i))
            then (start_point (sort_key offset all_lines ! i), end_point (sort_key offset all_lines ! i))
            else (end_point (sort_key offset all_lines ! i), start_point (sort_key offset all_lines ! i)))"
    unfolding optimize_fallback by (rule fallback_nth)
qed

theorem fallback_order_and_orientation_witness:
  "optimize_line_ordering_for_corners None
     (sort_key offset
       [\<lparr>offset = 1, intersections = [(1,0),(1,1)], start_point = (1,0), end_point = (1,1)\<rparr>,
        \<lparr>offset = 0, intersections = [(0,0),(0,1)], start_point = (0,0), end_point = (0,1)\<rparr>])
     Map.empty 0 ! 1 = (0, 1) \<and>
   optimize_line_ordering_for_corners None
     (sort_key offset
       [\<lparr>offset = 1, intersections = [(1,0),(1,1)], start_point = (1,0), end_point = (1,1)\<rparr>,
        \<lparr>offset = 0, intersections = [(0,0),(0,1)], start_point = (0,0), end_point = (0,1)\<rparr>])
     Map.empty 0 ! 2 = (1, 1) \<and>
   optimize_line_ordering_for_corners None
     (sort_key offset
       [\<lparr>offset = 1, intersections = [(1,0),(1,1)], start_point = (1,0), end_point = (1,1)\<rparr>,
        \<lparr>offset = 0, intersections = [(0,0),(0,1)], start_point = (0,0), end_point = (0,1)\<rparr>])
     Map.empty 0 ! 3 = (1, 0)"
proof -
  let ?ls = "[\<lparr>offset = 1, intersections = [(1,0),(1,1)], start_point = (1,0), end_point = (1,1)\<rparr>,
        \<lparr>offset = 0, intersections = [(0,0),(0,1)], start_point = (0,0), end_point = (0,1)\<rparr>]"
  let ?ws = "optimize_line_ordering_for_corners None (sort_key offset ?ls) Map.empty 0"
  note t = fallback_order_and_orientation[of ?ls Map.empty 0, unfolded Let_def]
  have s: "sort_key offset ?ls = [?ls ! 1, ?ls ! 0]" by simp
  from t have all: "\<forall>i<2. (?ws ! (2 * i), ?ws ! (2 * i + 1)) =
           (if i = 0 \<or> calculate_distance (?ws ! (2 * i - 1)) (start_point (sort_key offset ?ls ! i))
                        < calculate_distance (?ws ! (2 * i - 1)) (end_point (sort_key offset ?ls ! i))
            then (start_point (sort_key offset ?ls ! i), end_point (sort_key offset ?ls ! i))
            else (end_point (sort_key offset ?ls ! i), start_point (sort_key offset ?ls ! i)))"
    by simp
  from all[rule_format, of 0] have w1: "?ws ! 1 = (0, 1)" by (simp add: s)
  from all[rule_format, of 1] w1 turn_back have "?ws ! 2 = (1, 1) \<and> ?ws ! 3 = (1, 0)"
    by (simp add: s)
  with w1 show ?thesis by simp
qed

text \<open>
  C2 as stated fails: of two lines running the same way, the second is emitted from its
  end to its start, the end being nearer to where the first line stopped.
\<close>

theorem fallback_orientation_counterexample:
  "optimize_line_ordering_for_corners None
     [\<lparr>offset = 0, intersections = [(0,0),(0,1)], start_point = (0,0), end_point = (0,1)\<rparr>,
      \<lparr>offset = 1, intersections = [(1,0),(1,1)], start_point = (1,0), end_point = (1,1)\<rparr>]
     Map.empty 0 = [(0,0),(0,1),(1,1),(1,0)]"
  by (simp add: optimize_line_ordering_for_corners_def two_lines_built)

subsection \<open>Retained scan lines\<close>

lemma is_duplicate_iff: "is_duplicate p xs \<longleftrightarrow> (\<exists>x\<in>set xs. near p x)"
  by (induction xs) (auto simp add: near_def)

lemma near_refl: "near p p" by (simp add: near_def)
lemma near_sym: "near p q \<Longrightarrow> near q p" by (simp add: near_def abs_minus_commute)

lemma unique_step_far_apart:
  assumes "far_apart xs"
  shows "far_apart (unique_step xs p)"
proof (cases "is_duplicate p xs")
  case True
  then show ?thesis using assms by (simp add: unique_step_def)
next
  case False
  then have far: "\<forall>x\<in>set xs. \<not> near p x" by (simp add: is_duplicate_iff)
  then have "p \<notin> set xs" using near_refl by blast
  moreover have "\<forall>x\<in>set xs. \<not> near x p" using far near_sym by blast
  ultimately show ?thesis
    using False assms far by (auto simp add: unique_step_def far_apart_def)
qed

lemma foldl_unique_step_far_apart:
  "far_apart xs \<Longrightarrow> far_apart (foldl unique_step xs ps)"
  by (induction ps arbitrary: xs) (simp_all add: unique_step_far_apart)

lemma line_polygon_intersections_far_apart:
  "far_apart (line_polygon_intersections a b polygon)"
  unfolding line_polygon_intersections_def
  by (rule foldl_unique_step_far_apart) (simp add: far_apart_def)

lemma get_line_intersections_only_length:
  "length (get_line_intersections_only lat lon b polygon) =
     (case probe_line lat lon b of (end1, end2) \<Rightarrow>
        if 2 \<le> length (line_polygon_intersections end1 end2 polygon)
        then length (line_polygon_intersections end1 end2 polygon) else 0)"
  by (simp add: get_line_intersections_only_def Let_def split: prod.splits)

lemma sweep_body_length:
  "length (sweep_body env direction offset_distance all_lines) =
     length all_lines + (if 2 \<le> length (probe_clip env direction offset_distance) then 1 else 0)"
  by (simp add: sweep_body_def probe_clip_def Let_def get_line_intersections_only_length
      split: prod.splits)

lemma probe_clip_far_apart: "far_apart (probe_clip env direction offset_distance)"
  by (simp add: probe_clip_def Let_def line_polygon_intersections_far_apart split: prod.splits)

lemma sweep_body_dropped:
  "length (probe_clip env direction offset_distance) < 2 \<Longrightarrow>
     sweep_body env direction offset_distance all_lines = all_lines"
  by (auto simp add: sweep_body_def probe_clip_def Let_def get_line_intersections_only_def
      split: prod.splits)

lemma sweep_body_kept:
  assumes "2 \<le> length (probe_clip env direction offset_distance)"
  shows "\<exists>line. sweep_body env direction offset_distance all_lines = all_lines @ [line] \<and>
           offset line = offset_distance * direction \<and>
           mset (intersections line) = mset (probe_clip env direction offset_distance) \<and>
           sorted (map (calculate_distance
                          (point_at_bearing_and_distance (center_lat env) (center_lon env)
                             (perp_bearing env) (offset_distance * direction)))
                     (intersections line)) \<and>
           start_point line = hd (intersections line) \<and>
           end_point line = last (intersections line)"
proof -
  obtain end1 end2 where pl: "probe_line (fst (point_at_bearing_and_distance (center_lat env) (center_lon env)
                           (perp_bearing env) (offset_distance * direction))) (snd (point_at_bearing_and_distance (center_lat env) (center_lon env)
                           (perp_bearing env) (offset_distance * direction))) (scan_bearing env) = (end1, end2)"
    by (cases "probe_line (fst (point_at_bearing_and_distance (center_lat env) (center_lon env)
                           (perp_bearing env) (offset_distance * direction))) (snd (point_at_bearing_and_distance (center_lat env) (center_lon env)
                           (perp_bearing env) (offset_distance * direction))) (scan_bearing env)")
  have clip: "probe_clip env direction offset_distance = line_polygon_intersections end1 end2 (buffered_polygon env)"
    by (simp add: probe_clip_def Let_def pl)
  have nth0: "xs ! 0 = hd xs" if "2 \<le> length xs" for xs :: "point list"
    using that by (cases xs) simp_all
  show ?thesis
    using assms unfolding clip
    by (simp add: sweep_body_def Let_def get_line_intersections_only_def pl nth0)
qed

lemma rev_line_pair: "rev (line_pair f l) = line_pair (\<not> f) l"
  by (simp add: line_pair_def)

lemma emit_line_pair: "\<exists>f. emit_line all_lines sfe ws (i, l) = ws @ line_pair f (all_lines ! l)"
proof (cases "i = 0")
  case True
  then have "emit_line all_lines sfe ws (i, l) = ws @ line_pair sfe (all_lines ! l)"
    by (simp add: emit_line_def Let_def line_pair_def)
  then show ?thesis by blast
next
  case False
  then have "emit_line all_lines sfe ws (i, l) =
      ws @ line_pair (\<not> calculate_distance (last ws) (start_point (all_lines ! l))
              < calculate_distance (last ws) (end_point (all_lines ! l))) (all_lines ! l)"
    by (simp add: emit_line_def Let_def line_pair_def)
  then show ?thesis by blast
qed

lemma foldl_emit_line_pairs:
  "\<exists>fs. length fs = length line_order \<and>
        foldl (emit_line all_lines sfe) [] (enumerate 0 line_order) =
          concat (map2 line_pair fs (map ((!) all_lines) line_order))"
proof (induction line_order rule: rev_induct)
  case Nil
  then show ?case by simp
next
  case (snoc l ls)
  then obtain fs where fs: "length fs = length ls"
    "foldl (emit_line all_lines sfe) [] (enumerate 0 ls) = concat (map2 line_pair fs (map ((!) all_lines) ls))"
    by blast
  obtain f where f: "emit_line all_lines sfe (foldl (emit_line all_lines sfe) [] (enumerate 0 ls)) (length ls, l)
      = foldl (emit_line all_lines sfe) [] (enumerate 0 ls) @ line_pair f (all_lines ! l)"
    using emit_line_pair by blast
  have "foldl (emit_line all_lines sfe) [] (enumerate 0 (ls @ [l])) =
          concat (map2 line_pair (fs @ [f]) (map ((!) all_lines) (ls @ [l])))"
    using fs f by (simp add: enumerate_append_eq)
  moreover have "length (fs @ [f]) = length (ls @ [l])" using fs by simp
  ultimately show ?case by blast
qed

lemma build_waypoints_pairs:
  "\<exists>fs ls. length fs = length all_lines \<and> (ls = all_lines \<or> ls = rev all_lines) \<and>
      build_waypoints home all_lines corners = concat (map2 line_pair fs ls)"
proof -
  obtain lo sfe where c: "choose_line_order home all_lines corners = (lo, sfe)"
    by (cases "choose_line_order home all_lines corners")
  have lo: "lo = [0..<length all_lines] \<or> lo = rev [0..<length all_lines]"
    using c by (auto simp add: choose_line_order_def Let_def split: option.splits if_splits)
  have ls: "map ((!) all_lines) lo = all_lines \<or> map ((!) all_lines) lo = rev all_lines"
    using lo by (auto simp add: map_nth rev_map[symmetric])
  obtain fs where fs: "length fs = length lo"
    "foldl (emit_line all_lines sfe) [] (enumerate 0 lo) = concat (map2 line_pair fs (map ((!) all_lines) lo))"
    using foldl_emit_line_pairs by blast
  have "length fs = length all_lines" using fs(1) lo by auto
  then show ?thesis
    using ls fs(2) by (auto simp add: build_waypoints_def c)
qed

lemma rev_concat_pairs:
  assumes "length fs = length ls"
  shows "rev (concat (map2 line_pair fs ls)) = concat (map2 line_pair (map Not (rev fs)) (rev ls))"
  using assms
proof (induction fs ls rule: list_induct2)
  case Nil
  then show ?case by simp
next
  case (Cons f fs l ls)
  then show ?case by (simp add: rev_line_pair)
qed

lemma optimize_pairs:
  "\<exists>fs ls. length fs = length all_lines \<and> (ls = all_lines \<or> ls = rev all_lines) \<and>
      optimize_line_ordering_for_corners home all_lines corners bearing = concat (map2 line_pair fs ls)"
proof -
  obtain fs ls where b: "length fs = length all_lines" "ls = all_lines \<or> ls = rev all_lines"
     "build_waypoints home all_lines corners = concat (map2 line_pair fs ls)"
    using build_waypoints_pairs by blast
  have len: "length fs = length ls" using b by auto
  have r: "rev (build_waypoints home all_lines corners) = concat (map2 line_pair (map Not (rev fs)) (rev ls))"
    unfolding b(3) by (rule rev_concat_pairs[OF len])
  have rl: "rev ls = all_lines \<or> rev ls = rev all_lines" using b(2) by auto
  have "optimize_line_ordering_for_corners home all_lines corners bearing = build_waypoints home all_lines corners
      \<or> optimize_line_ordering_for_corners home all_lines corners bearing = rev (build_waypoints home all_lines corners)"
    by (cases "all_lines = []")
       (auto simp add: optimize_line_ordering_for_corners_def Let_def build_waypoints_def
         choose_line_order_def split: option.splits)
  then show ?thesis
  proof
    assume "optimize_line_ordering_for_corners home all_lines corners bearing = build_waypoints home all_lines corners"
    then show ?thesis using b by auto
  next
    assume "optimize_line_ordering_for_corners home all_lines corners bearing = rev (build_waypoints home all_lines corners)"
    then have "optimize_line_ordering_for_corners home all_lines corners bearing = concat (map2 line_pair (map Not (rev fs)) (rev ls))"
      using r by simp
    moreover have "length (map Not (rev fs)) = length all_lines" using b(1) by simp
    ultimately show ?thesis using rl by blast
  qed
qed

lemma buffered_polygon_make_env:
  "buffered_polygon (make_env spacing bearing buffered bounds) = buffered"
  by (cases bounds) (simp add: make_env_def)

lemma prepare_sweep_buffered:
  "prepare_sweep spacing buffer_distance polygon = Inr (env, corners) \<Longrightarrow>
     buffered_polygon env = create_buffer_polygon buffer_distance polygon"
  by (auto simp add: prepare_sweep_def Let_def buffered_polygon_make_env
      split: sum.splits prod.splits)

lemma generate_count:
  assumes "generate_parallel_lines_to_longest_side spacing buffer_distance home polygon = Some (Inr ws)"
  shows "\<exists>all_lines. length ws = 2 * length all_lines \<and>
           (length polygon < 3 \<and> all_lines = [] \<or>
            (\<exists>env passes. buffered_polygon env = create_buffer_polygon buffer_distance polygon \<and>
                 sweep env = Some (all_lines, passes)))"
proof (cases "length polygon < 3")
  case True
  then show ?thesis using assms by (simp add: generate_parallel_lines_to_longest_side_def)
next
  case False
  from assms False obtain env corners all_lines passes where
    p: "prepare_sweep spacing buffer_distance polygon = Inr (env, corners)"
    and s: "sweep env = Some (all_lines, passes)"
    and w: "ws = optimize_line_ordering_for_corners home (sort_key offset all_lines) corners (scan_bearing env)"
    by (auto simp add: generate_parallel_lines_to_longest_side_def
        split: sum.splits prod.splits option.splits)
  have "length ws = 2 * length all_lines"
    unfolding w by (simp add: length_optimize)
  then show ?thesis using s prepare_sweep_buffered[OF p] by blast
qed

subsection \<open>Probes from the equator\<close>

text \<open>Where the spherical formulas can be evaluated in closed form: from a point on the
  equator along the meridian or along the equator.\<close>

lemma degrees_radians: "degrees (radians x) = x"
  by (simp add: degrees_def radians_def)

lemma py_mod_small: "0 \<le> x \<Longrightarrow> x < m \<Longrightarrow> py_mod x m = x"
  by (simp add: py_mod_def floor_eq_iff[THEN iffD2])

lemma earth_arc_small: "\<bar>d\<bar> < 6371000 \<Longrightarrow> \<bar>d / 6371000\<bar> < pi / 2" for d :: real
proof -
  assume "\<bar>d\<bar> < 6371000"
  then have "\<bar>d / 6371000\<bar> < 1" by simp
  moreover have "1 \<le> pi / 2" using pi_ge_two by simp
  ultimately show ?thesis by linarith
qed

lemma cos_arc_pos: "\<bar>x\<bar> < pi / 2 \<Longrightarrow> 0 < cos x" for x :: real
  by (rule cos_gt_zero_pi) (simp_all add: abs_less_iff)

text \<open>From a point on the equator, due north or south: along the meridian.\<close>

lemma point_at_equator_north:
  assumes "\<bar>d\<bar> < 6371000"
  shows "point_at_bearing_and_distance 0 lon 0 d = (degrees (d / 6371000), lon)"
proof -
  have a: "\<bar>d / 6371000\<bar> < pi / 2" using assms by (rule earth_arc_small)
  then have s: "arcsin (sin (d / 6371000)) = d / 6371000"
    by (intro arcsin_sin) (simp_all add: abs_less_iff less_imp_le)
  have c: "0 < cos (d / 6371000)" using a by (rule cos_arc_pos)
  show ?thesis
    by (simp add: point_at_bearing_and_distance_def Let_def radians_def atan2_def s c)
       (simp add: degrees_def)
qed

lemma point_at_equator_south:
  assumes "\<bar>d\<bar> < 6371000"
  shows "point_at_bearing_and_distance 0 lon 180 d = (- degrees (d / 6371000), lon)"
proof -
  have a: "\<bar>d / 6371000\<bar> < pi / 2" using assms by (rule earth_arc_small)
  then have "arcsin (sin (d / 6371000)) = d / 6371000"
    by (intro arcsin_sin) (simp_all add: abs_less_iff less_imp_le)
  then have s: "arcsin (- sin (d / 6371000)) = - (d / 6371000)"
    by (simp add: arcsin_minus)
  have c: "0 < cos (d / 6371000)" using a by (rule cos_arc_pos)
  show ?thesis
    by (simp add: point_at_bearing_and_distance_def Let_def radians_def atan2_def s c)
       (simp add: degrees_def)
qed

text \<open>From a point on the equator, due east: along the equator.\<close>

lemma point_at_equator_east:
  assumes "\<bar>d\<bar> < 6371000"
  shows "point_at_bearing_and_distance 0 lon 90 d = (0, lon + degrees (d / 6371000))"
proof -
  have a: "\<bar>d / 6371000\<bar> < pi / 2" using assms by (rule earth_arc_small)
  have c: "0 < cos (d / 6371000)" using a by (rule cos_arc_pos)
  have t: "arctan (sin (d / 6371000) / cos (d / 6371000)) = d / 6371000"
    using arctan_tan[of "d / 6371000"] a by (simp add: tan_def abs_less_iff)
  show ?thesis
    by (simp add: point_at_bearing_and_distance_def Let_def radians_def atan2_def t c)
       (simp add: degrees_def field_simps)
qed

lemma probe_line_equator_north:
  "probe_line 0 lon 0 = ((degrees (2000 / 6371000), lon), (- degrees (2000 / 6371000), lon))"
  by (simp add: probe_line_def Let_def point_at_equator_north point_at_equator_south py_mod_small)

text \<open>A probe along a meridian against one edge.\<close>

lemma meridian_probe_intersection:
  "line_intersection (a, c) (b, c) p3 p4 =
     (if \<bar>(a - b) * (snd p3 - snd p4)\<bar> < 1 / 10 ^ 10 then None
      else if 0 \<le> (snd p3 - c) / (snd p3 - snd p4) \<and> (snd p3 - c) / (snd p3 - snd p4) \<le> 1
           then Some (fst p3 + (c - snd p3) * (fst p3 - fst p4) / (snd p3 - snd p4), c)
           else None)"
proof -
  have d: "intersection_denom (a, c) (b, c) p3 p4 = (a - b) * (snd p3 - snd p4)"
    by (simp add: intersection_denom_def)
  show ?thesis
  proof (cases "\<bar>(a - b) * (snd p3 - snd p4)\<bar> < 1 / 10 ^ 10")
    case True
    then show ?thesis
      by (simp add: line_intersection_def d)
  next
    case False
    then have nz: "a - b \<noteq> 0" "snd p3 - snd p4 \<noteq> 0" by auto
    have "intersection_u (a, c) (b, c) p3 p4 = ((a - b) * (snd p3 - c)) / ((a - b) * (snd p3 - snd p4))"
      unfolding intersection_u_def d by (simp add: algebra_simps)
    also have "\<dots> = (snd p3 - c) / (snd p3 - snd p4)"
      using nz(1) by simp
    finally have u: "intersection_u (a, c) (b, c) p3 p4 = (snd p3 - c) / (snd p3 - snd p4)" .
    have "intersection_t (a, c) (b, c) p3 p4 * (b - a) =
            - (((a - fst p3) * (snd p3 - snd p4) - (c - snd p3) * (fst p3 - fst p4)) * (a - b))
              / ((snd p3 - snd p4) * (a - b))"
      unfolding intersection_t_def d by (simp add: algebra_simps)
    also have "\<dots> = - (((a - fst p3) * (snd p3 - snd p4) - (c - snd p3) * (fst p3 - fst p4)) / (snd p3 - snd p4))"
      using nz(1) by simp
    also have "\<dots> = - (a - fst p3) + (c - snd p3) * (fst p3 - fst p4) / (snd p3 - snd p4)"
      using nz(2) by (simp add: diff_divide_distrib)
    finally have x: "a + intersection_t (a, c) (b, c) p3 p4 * (b - a)
            = fst p3 + (c - snd p3) * (fst p3 - fst p4) / (snd p3 - snd p4)"
      by simp
    show ?thesis
      using False by (simp add: line_intersection_def Let_def u x d)
  qed
qed

lemma probe_half_length: "1 / 100 < degrees (2000 / 6371000)"
proof -
  have "(1 / 100) * pi < (1 / 100) * 4" using pi_less_4 by simp
  also have "\<dots> < 2000 / 6371000 * 180" by simp
  finally show ?thesis by (simp add: degrees_def pos_less_divide_eq)
qed

lemma upt4: "[0..<4] = [0, 1, 2, 3]"
  by (simp add: upt_rec)

lemma square_clip:
  "line_polygon_intersections (degrees (2000 / 6371000), 0) (- degrees (2000 / 6371000), 0)
     [(- 1, - 1), (- 1, 1), (1, 1), (1, - 1)] = [(- 1, 0), (1, 0)]"
proof -
  let ?k = "degrees (2000 / 6371000)"
  have k: "\<not> \<bar>(?k + ?k) * 2\<bar> < 1 / 10 ^ 10" "\<not> \<bar>(?k + ?k) * (- 2)\<bar> < 1 / 10 ^ 10"
    "\<not> ?k * 4 < 1 / 10 ^ 10" "\<not> ?k * 4 < 1 / 10000000000"
    using probe_half_length by simp_all
  have e: "edge_intersections (?k, 0) (- ?k, 0) [(- 1, - 1), (- 1, 1), (1, 1), (1, - 1)]
             = [(- 1, 0), (1, 0)]"
    using probe_half_length
    by (simp add: edge_intersections_def upt4 List.map_filter_def meridian_probe_intersection k)
  show ?thesis
    unfolding line_polygon_intersections_def e by (simp add: unique_step_def)
qed

lemma square_probe_clip:
  "probe_clip \<lparr>center_lat = 0, center_lon = 0, perp_bearing = 90, scan_bearing = 0,
               buffered_polygon = [(- 1, - 1), (- 1, 1), (1, 1), (1, - 1)],
               spacing_meters = 1, max_extend = 1\<rparr> 1 0 = [(- 1, 0), (1, 0)]"
  by (simp add: probe_clip_def point_at_equator_east degrees_def)
     (simp only: probe_line_equator_north square_clip prod.case)

subsection \<open>Clipping a line that misses the polygon\<close>

lemma denom_as_sides:
  "intersection_denom p1 p2 p3 p4 = side_of_line p1 p2 p4 - side_of_line p1 p2 p3"
  by (simp add: intersection_denom_def side_of_line_def algebra_simps)

lemma u_as_sides:
  "intersection_u p1 p2 p3 p4 =
     - side_of_line p1 p2 p3 / (side_of_line p1 p2 p4 - side_of_line p1 p2 p3)"
  unfolding intersection_u_def denom_as_sides side_of_line_def ..

lemma line_intersection_same_side_pos:
  assumes "0 < side_of_line p1 p2 p3" "0 < side_of_line p1 p2 p4"
  shows "line_intersection p1 p2 p3 p4 = None"
proof -
  let ?s3 = "side_of_line p1 p2 p3" and ?s4 = "side_of_line p1 p2 p4"
  have "- ?s3 / (?s4 - ?s3) < 0 \<or> 1 < - ?s3 / (?s4 - ?s3) \<or> ?s4 - ?s3 = 0"
  proof (cases "?s4 - ?s3 > 0")
    case True
    moreover have "- ?s3 < 0" using assms by simp
    ultimately have "- ?s3 / (?s4 - ?s3) < 0" by (rule divide_neg_pos[rotated])
    then show ?thesis by simp
  next
    case False
    show ?thesis
    proof (cases "?s4 - ?s3 = 0")
      case True then show ?thesis by simp
    next
      case F: False
      then have neg: "?s4 - ?s3 < 0" using False by simp
      have "- ?s3 < 1 * (?s4 - ?s3)" using assms by simp
      then have "1 < - ?s3 / (?s4 - ?s3)"
        by (simp only: neg_less_divide_eq[OF neg])
      then show ?thesis by simp
    qed
  qed
  then show ?thesis
    unfolding line_intersection_def Let_def u_as_sides denom_as_sides by auto
qed

lemma line_intersection_same_side_neg:
  assumes "side_of_line p1 p2 p3 < 0" "side_of_line p1 p2 p4 < 0"
  shows "line_intersection p1 p2 p3 p4 = None"
proof -
  let ?s3 = "side_of_line p1 p2 p3" and ?s4 = "side_of_line p1 p2 p4"
  have "- ?s3 / (?s4 - ?s3) < 0 \<or> 1 < - ?s3 / (?s4 - ?s3) \<or> ?s4 - ?s3 = 0"
  proof (cases "?s4 - ?s3 < 0")
    case True
    moreover have "0 < - ?s3" using assms by simp
    ultimately have "- ?s3 / (?s4 - ?s3) < 0" by (rule divide_pos_neg[rotated])
    then show ?thesis by simp
  next
    case False
    show ?thesis
    proof (cases "?s4 - ?s3 = 0")
      case True then show ?thesis by simp
    next
      case F: False
      then have pos: "?s4 - ?s3 > 0" using False by simp
      have "1 * (?s4 - ?s3) < - ?s3" using assms by simp
      then have "1 < - ?s3 / (?s4 - ?s3)"
        by (simp only: pos_less_divide_eq[OF pos])
      then show ?thesis by simp
    qed
  qed
  then show ?thesis
    unfolding line_intersection_def Let_def u_as_sides denom_as_sides by auto
qed

lemma edge_intersections_empty:
  assumes "(\<forall>q\<in>set polygon. 0 < side_of_line a b q) \<or> (\<forall>q\<in>set polygon. side_of_line a b q < 0)"
  shows "edge_intersections a b polygon = []"
proof -
  have "line_intersection a b (polygon ! i) (polygon ! ((i + 1) mod length polygon)) = None"
    if "i < length polygon" for i
  proof -
    have "0 < length polygon" using that by (cases polygon) simp_all
    then have m: "(i + 1) mod length polygon < length polygon" by (rule mod_less_divisor)
    have "polygon ! i \<in> set polygon" "polygon ! ((i + 1) mod length polygon) \<in> set polygon"
      using that m by (simp_all only: nth_mem)
    then show ?thesis
      using assms line_intersection_same_side_pos line_intersection_same_side_neg by blast
  qed
  then show ?thesis
    by (simp add: edge_intersections_def List.map_filter_def filter_empty_conv)
qed

lemma foldl_min_le_init: "foldl min a xs \<le> a" for a :: real
proof (induction xs arbitrary: a)
  case Nil
  show ?case by simp
next
  case (Cons y ys)
  have "foldl min (min a y) ys \<le> min a y" by (rule Cons.IH)
  also have "min a y \<le> a" by simp
  finally show ?case by simp
qed

lemma foldl_min_le_elem: "x \<in> set xs \<Longrightarrow> foldl min a xs \<le> x" for a :: real
proof (induction xs arbitrary: a)
  case Nil
  then show ?case by simp
next
  case (Cons y ys)
  show ?case
  proof (cases "x = y")
    case True
    have "foldl min (min a y) ys \<le> min a y" by (rule foldl_min_le_init)
    also have "min a y \<le> y" by simp
    finally show ?thesis using True by simp
  next
    case False
    then have "x \<in> set ys" using Cons.prems by simp
    then show ?thesis using Cons.IH by simp
  qed
qed

lemma foldl_max_ge_init: "a \<le> foldl max a xs" for a :: real
proof (induction xs arbitrary: a)
  case Nil
  show ?case by simp
next
  case (Cons y ys)
  have "a \<le> max a y" by simp
  also have "max a y \<le> foldl max (max a y) ys" by (rule Cons.IH)
  finally show ?case by simp
qed

lemma foldl_max_ge_elem: "x \<in> set xs \<Longrightarrow> x \<le> foldl max a xs" for a :: real
proof (induction xs arbitrary: a)
  case Nil
  then show ?case by simp
next
  case (Cons y ys)
  show ?case
  proof (cases "x = y")
    case True
    have "y \<le> max a y" by simp
    also have "max a y \<le> foldl max (max a y) ys" by (rule foldl_max_ge_init)
    finally show ?thesis using True by simp
  next
    case False
    then have "x \<in> set ys" using Cons.prems by simp
    then show ?thesis using Cons.IH by simp
  qed
qed

lemma get_polygon_bounds_contains:
  assumes "get_polygon_bounds polygon = Inr (min_lat, max_lat, min_lon, max_lon)" "q \<in> set polygon"
  shows "min_lat \<le> fst q \<and> fst q \<le> max_lat \<and> min_lon \<le> snd q \<and> snd q \<le> max_lon"
proof -
  from assms obtain p ps where polygon: "polygon = p # ps" by (cases polygon) auto
  have b: "min_lat = foldl min (fst p) (map fst ps)" "max_lat = foldl max (fst p) (map fst ps)"
    "min_lon = foldl min (snd p) (map snd ps)" "max_lon = foldl max (snd p) (map snd ps)"
    using assms(1) by (simp_all add: get_polygon_bounds_def polygon)
  from assms(2) consider "q = p" | "q \<in> set ps" by (auto simp add: polygon)
  then show ?thesis
  proof cases
    case 1
    then show ?thesis unfolding b by (simp add: foldl_min_le_init foldl_max_ge_init)
  next
    case 2
    then have "fst q \<in> set (map fst ps)" "snd q \<in> set (map snd ps)" by simp_all
    then show ?thesis unfolding b by (simp add: foldl_min_le_elem foldl_max_ge_elem)
  qed
qed

lemma affine_pos:
  fixes k m l h x :: real
  assumes "l \<le> x" "x \<le> h" "0 < k + m * l" "0 < k + m * h"
  shows "0 < k + m * x"
proof (cases "0 \<le> m")
  case True
  then have "m * l \<le> m * x" using assms(1) by (rule mult_left_mono[rotated])
  then show ?thesis using assms(3) by linarith
next
  case False
  then have "m * h \<le> m * x" using assms(2) by (simp add: mult_left_mono_neg)
  then show ?thesis using assms(4) by linarith
qed

lemma side_of_line_affine:
  "side_of_line a b (x, y) = ((fst a - fst b) * snd a - (snd a - snd b) * fst a
      - (fst a - fst b) * y) + (snd a - snd b) * x"
  "side_of_line a b (x, y) = ((fst a - fst b) * snd a - (snd a - snd b) * fst a
      + (snd a - snd b) * x) + (- (fst a - fst b)) * y"
  by (simp_all add: side_of_line_def algebra_simps)

lemma side_pos_in_box:
  assumes "min_lat \<le> x" "x \<le> max_lat" "min_lon \<le> y" "y \<le> max_lon"
    and "0 < side_of_line a b (min_lat, min_lon)" "0 < side_of_line a b (min_lat, max_lon)"
    and "0 < side_of_line a b (max_lat, min_lon)" "0 < side_of_line a b (max_lat, max_lon)"
  shows "0 < side_of_line a b (x, y)"
proof -
  have lo: "0 < side_of_line a b (min_lat, y)"
    using assms(5,6) unfolding side_of_line_affine(2) by (rule affine_pos[OF assms(3,4)])
  have hi: "0 < side_of_line a b (max_lat, y)"
    using assms(7,8) unfolding side_of_line_affine(2) by (rule affine_pos[OF assms(3,4)])
  show ?thesis
    using lo hi unfolding side_of_line_affine(1) by (rule affine_pos[OF assms(1,2)])
qed

lemma side_of_line_flip: "side_of_line b a q - side_of_line b a a = - (side_of_line a b q)"
  by (simp add: side_of_line_def algebra_simps)

lemma side_neg_in_box:
  assumes "min_lat \<le> x" "x \<le> max_lat" "min_lon \<le> y" "y \<le> max_lon"
    and "side_of_line a b (min_lat, min_lon) < 0" "side_of_line a b (min_lat, max_lon) < 0"
    and "side_of_line a b (max_lat, min_lon) < 0" "side_of_line a b (max_lat, max_lon) < 0"
  shows "side_of_line a b (x, y) < 0"
proof -
  have neg: "- side_of_line a b (x, y) = ((- ((fst a - fst b) * snd a - (snd a - snd b) * fst a)
      + (fst a - fst b) * y)) + (- (snd a - snd b)) * x"
    "- side_of_line a b (x, y) = ((- ((fst a - fst b) * snd a - (snd a - snd b) * fst a)
      + (- (snd a - snd b)) * x)) + (fst a - fst b) * y" for x y
    by (simp_all add: side_of_line_def algebra_simps)
  have c: "0 < - side_of_line a b (min_lat, min_lon)" "0 < - side_of_line a b (min_lat, max_lon)"
    "0 < - side_of_line a b (max_lat, min_lon)" "0 < - side_of_line a b (max_lat, max_lon)"
    using assms(5-8) by simp_all
  have lo: "0 < - side_of_line a b (min_lat, y)"
    using c(1,2) unfolding neg(2) by (rule affine_pos[OF assms(3,4)])
  have hi: "0 < - side_of_line a b (max_lat, y)"
    using c(3,4) unfolding neg(2) by (rule affine_pos[OF assms(3,4)])
  have "0 < - side_of_line a b (x, y)"
    using lo hi unfolding neg(1) by (rule affine_pos[OF assms(1,2)])
  then show ?thesis by simp
qed

text \<open>
  C3 (as amended). When the infinite line through the two given end points misses the
  bounding box of the polygon, that is, the four corners of the box lie strictly on one
  side of it, the clipping is empty.
\<close>

theorem clip_empty_when_line_misses_box:
  assumes "get_polygon_bounds polygon = Inr bounds"
    and "(\<forall>c\<in>set (box_corners bounds). 0 < side_of_line line_start line_end c) \<or>
         (\<forall>c\<in>set (box_corners bounds). side_of_line line_start line_end c < 0)"
  shows "line_polygon_intersections line_start line_end polygon = []"
proof -
  obtain min_lat max_lat min_lon max_lon where b: "bounds = (min_lat, max_lat, min_lon, max_lon)"
    by (cases bounds) auto
  have inbox: "min_lat \<le> fst q \<and> fst q \<le> max_lat \<and> min_lon \<le> snd q \<and> snd q \<le> max_lon"
    if "q \<in> set polygon" for q
    using get_polygon_bounds_contains[OF assms(1)[unfolded b] that] .
  from assms(2) have "(\<forall>q\<in>set polygon. 0 < side_of_line line_start line_end q) \<or>
      (\<forall>q\<in>set polygon. side_of_line line_start line_end q < 0)"
  proof
    assume "\<forall>c\<in>set (box_corners bounds). 0 < side_of_line line_start line_end c"
    then have c: "0 < side_of_line line_start line_end (min_lat, min_lon)"
      "0 < side_of_line line_start line_end (min_lat, max_lon)"
      "0 < side_of_line line_start line_end (max_lat, min_lon)"
      "0 < side_of_line line_start line_end (max_lat, max_lon)"
      by (simp_all add: b box_corners_def)
    have "0 < side_of_line line_start line_end q" if "q \<in> set polygon" for q
    proof -
      from inbox[OF that] have i: "min_lat \<le> fst q" "fst q \<le> max_lat" "min_lon \<le> snd q" "snd q \<le> max_lon"
        by simp_all
      from side_pos_in_box[OF i c] show ?thesis by simp
    qed
    then show ?thesis by blast
  next
    assume "\<forall>c\<in>set (box_corners bounds). side_of_line line_start line_end c < 0"
    then have c: "side_of_line line_start line_end (min_lat, min_lon) < 0"
      "side_of_line line_start line_end (min_lat, max_lon) < 0"
      "side_of_line line_start line_end (max_lat, min_lon) < 0"
      "side_of_line line_start line_end (max_lat, max_lon) < 0"
      by (simp_all add: b box_corners_def)
    have "side_of_line line_start line_end q < 0" if "q \<in> set polygon" for q
    proof -
      from inbox[OF that] have i: "min_lat \<le> fst q" "fst q \<le> max_lat" "min_lon \<le> snd q" "snd q \<le> max_lon"
        by simp_all
      from side_neg_in_box[OF i c] show ?thesis by simp
    qed
    then show ?thesis by blast
  qed
  then have "edge_intersections line_start line_end polygon = []"
    by (rule edge_intersections_empty)
  then show ?thesis
    by (simp add: line_polygon_intersections_def)
qed

theorem clip_empty_when_line_misses_box_witness:
  "get_polygon_bounds [(0, 0), (0, 1), (1, 1), (1, 0)] = Inr (0, 1, 0, 1) \<and>
   line_polygon_intersections (2, 0) (2, 1) [(0, 0), (0, 1), (1, 1), (1, 0)] = []"
proof -
  have b: "get_polygon_bounds [(0, 0), (0, 1), (1, 1), (1, 0)] = Inr (0, 1, 0, 1)"
    by (simp add: get_polygon_bounds_def)
  have s: "\<forall>c\<in>set (box_corners (0, 1, 0, 1)). 0 < side_of_line (2, 0) (2, 1) c"
    by (simp add: box_corners_def side_of_line_def)
  from clip_empty_when_line_misses_box[OF b disjI1[OF s]] b show ?thesis by simp
qed

text \<open>
  C3 as stated fails: both end points of the segment from \<open>(2, 1/2)\<close> to \<open>(3, 1/2)\<close> lie
  outside the bounding box \<open>[0, 1] \<times> [0, 1]\<close> of the unit square, as does the whole
  segment, and the clipping has two points, where the line through them crosses the
  square.
\<close>

theorem clip_outside_box_counterexample:
  "get_polygon_bounds [(0, 0), (0, 1), (1, 1), (1, 0)] = Inr (0, 1, 0, 1) \<and>
   line_polygon_intersections (2, 1 / 2) (3, 1 / 2) [(0, 0), (0, 1), (1, 1), (1, 0)]
     = [(0, 1 / 2), (1, 1 / 2)]"
proof -
  have i: "line_intersection (2, 1 / 2) (3, 1 / 2) (0, 0) (0, 1) = Some (0, 1 / 2)"
    "line_intersection (2, 1 / 2) (3, 1 / 2) (0, 1) (1, 1) = None"
    "line_intersection (2, 1 / 2) (3, 1 / 2) (1, 1) (1, 0) = Some (1, 1 / 2)"
    "line_intersection (2, 1 / 2) (3, 1 / 2) (1, 0) (0, 0) = None"
    by (simp_all add: meridian_probe_intersection)
  have e: "edge_intersections (2, 1 / 2) (3, 1 / 2) [(0, 0), (0, 1), (1, 1), (1, 0)]
            = [(0, 1 / 2), (1, 1 / 2)]"
    by (simp add: edge_intersections_def upt4 map_filter_simps i)
  show ?thesis
    unfolding line_polygon_intersections_def e
    by (simp add: get_polygon_bounds_def unique_step_def)
qed

subsection \<open>The longest side\<close>

lemma sphere_identity:
  fixes s1 c1 s2 c2 sL cL :: real
  assumes "s1\<^sup>2 + c1\<^sup>2 = 1" "s2\<^sup>2 + c2\<^sup>2 = 1" "sL\<^sup>2 + cL\<^sup>2 = 1"
  shows "(c1 * s2 - s1 * c2 * cL)\<^sup>2 + (sL * c2)\<^sup>2 + (s1 * s2 + c1 * c2 * cL)\<^sup>2 = 1"
proof -
  have "(c1 * s2 - s1 * c2 * cL)\<^sup>2 + (sL * c2)\<^sup>2 + (s1 * s2 + c1 * c2 * cL)\<^sup>2
      = s2\<^sup>2 * (s1\<^sup>2 + c1\<^sup>2) + c2\<^sup>2 * (cL\<^sup>2 * (s1\<^sup>2 + c1\<^sup>2) + sL\<^sup>2)"
    by (simp add: power2_eq_square algebra_simps)
  also have "\<dots> = s2\<^sup>2 + c2\<^sup>2 * (sL\<^sup>2 + cL\<^sup>2)"
    unfolding assms(1) by (simp add: add.commute)
  also have "\<dots> = 1"
    by (simp add: assms(2,3))
  finally show ?thesis .
qed

lemma haversine_a_cos:
  "haversine_a p q =
     (1 - (sin (radians (fst p)) * sin (radians (fst q)) +
           cos (radians (fst p)) * cos (radians (fst q)) * cos (radians (snd q) - radians (snd p)))) / 2"
proof -
  have h: "(sin (x / 2))\<^sup>2 = (1 - cos x) / 2" for x :: real
    using cos_double_sin[of "x / 2"] by simp
  have r: "radians (x - y) = radians x - radians y" for x y
    by (simp add: radians_def diff_divide_distrib left_diff_distrib)
  show ?thesis
    unfolding haversine_a_def Let_def r h cos_diff
    by (simp add: field_simps)
qed

lemma zero_length_zero_bearing:
  assumes "haversine_a p q = 0"
  shows "edge_bearing p q = 0"
proof -
  let ?s1 = "sin (radians (fst p))" and ?c1 = "cos (radians (fst p))"
  let ?s2 = "sin (radians (fst q))" and ?c2 = "cos (radians (fst q))"
  let ?sL = "sin (radians (snd q) - radians (snd p))" and ?cL = "cos (radians (snd q) - radians (snd p))"
  let ?x = "?c1 * ?s2 - ?s1 * ?c2 * ?cL" and ?y = "?sL * ?c2"
  have C: "?s1 * ?s2 + ?c1 * ?c2 * ?cL = 1"
    using assms unfolding haversine_a_cos by simp
  have "?x\<^sup>2 + ?y\<^sup>2 + (?s1 * ?s2 + ?c1 * ?c2 * ?cL)\<^sup>2 = 1"
    by (rule sphere_identity) simp_all
  then have "?x\<^sup>2 + ?y\<^sup>2 = 0"
    unfolding C by simp
  then have xy: "?x = 0" "?y = 0"
    by (simp_all add: sum_power2_eq_zero_iff)
  have "py_mod (degrees (atan2 0 0) + 360) 360 = 0"
    by (simp add: atan2_def degrees_def py_mod_def)
  then show ?thesis
    unfolding edge_bearing_def Let_def xy .
qed

lemma longest_side_step_eq:
  "longest_side_step polygon (side_record polygon i) k =
     (if side_length polygon k > side_length polygon i then side_record polygon k
      else side_record polygon i)"
  by (simp add: longest_side_step_def side_record_def side_length_def side_bearing_def Let_def)

lemma first_longest_step:
  assumes "first_longest polygon k i"
  shows "first_longest polygon (Suc k)
           (if side_length polygon k > side_length polygon i then k else i)"
proof (cases "side_length polygon k > side_length polygon i")
  case True
  have "side_length polygon j \<le> side_length polygon k" if "j < Suc k" for j
  proof (cases "j = k")
    case True then show ?thesis by simp
  next
    case False
    then have "j < k" using that by simp
    then have "side_length polygon j \<le> side_length polygon i"
      using assms by (simp add: first_longest_def)
    then show ?thesis using True by simp
  qed
  moreover have "side_length polygon j < side_length polygon k" if "j < k" for j
  proof -
    have "side_length polygon j \<le> side_length polygon i"
      using assms that by (simp add: first_longest_def)
    then show ?thesis using True by simp
  qed
  ultimately show ?thesis using True by (simp add: first_longest_def)
next
  case False
  have "side_length polygon j \<le> side_length polygon i" if "j < Suc k" for j
  proof (cases "j = k")
    case True then show ?thesis using False by simp
  next
    case F: False
    then have "j < k" using that by simp
    then show ?thesis using assms by (simp add: first_longest_def)
  qed
  then show ?thesis using False assms by (simp add: first_longest_def)
qed

lemma longest_side_first_pass:
  assumes "1 < length polygon"
  shows "longest_side_step polygon (0, 0, 0, polygon ! 0, polygon ! 1) 0 = side_record polygon 0"
proof (cases "side_length polygon 0 > 0")
  case True
  then show ?thesis
    by (simp add: longest_side_step_def side_record_def side_length_def side_bearing_def Let_def)
next
  case False
  then have z: "side_length polygon 0 = 0"
    using calculate_distance_nonneg[of "polygon ! 0" "polygon ! (1 mod length polygon)"]
    by (simp add: side_length_def)
  then have "haversine_a (polygon ! 0) (polygon ! (1 mod length polygon)) = 0"
    by (simp add: side_length_def calculate_distance_zero_iff)
  then have b: "side_bearing polygon 0 = 0"
    by (simp add: side_bearing_def zero_length_zero_bearing)
  have "side_record polygon 0 = (0, 0, 0, polygon ! 0, polygon ! 1)"
    using assms by (simp add: side_record_def z b)
  then show ?thesis
    using z by (simp add: longest_side_step_def side_length_def Let_def)
qed

lemma longest_side_fold:
  assumes "1 < length polygon"
  shows "\<exists>i. first_longest polygon (Suc k) i \<and>
           foldl (longest_side_step polygon) (0, 0, 0, polygon ! 0, polygon ! 1) [0..<Suc k]
             = side_record polygon i"
proof (induction k)
  case 0
  have "first_longest polygon (Suc 0) 0" by (simp add: first_longest_def)
  then show ?case using longest_side_first_pass[OF assms] by auto
next
  case (Suc k)
  then obtain i where i: "first_longest polygon (Suc k) i"
    "foldl (longest_side_step polygon) (0, 0, 0, polygon ! 0, polygon ! 1) [0..<Suc k]
       = side_record polygon i"
    by blast
  let ?i' = "if side_length polygon (Suc k) > side_length polygon i then Suc k else i"
  have "first_longest polygon (Suc (Suc k)) ?i'"
    using first_longest_step[OF i(1)] .
  moreover have "foldl (longest_side_step polygon) (0, 0, 0, polygon ! 0, polygon ! 1) [0..<Suc (Suc k)]
       = side_record polygon ?i'"
    using i(2) by (simp add: longest_side_step_eq)
  ultimately show ?case by blast
qed

text \<open>
  C5. For a polygon of at least three vertices, \<open>find_longest_side_with_bearing\<close>
  returns the index \<open>i\<close> of a side of greatest haversine length, the sides being the
  pairs of consecutive vertices with wraparound, together with the length, the bearing
  and the two end points of that side; every side before \<open>i\<close> is strictly shorter, so
  among sides of equal greatest length the first wins.
\<close>

theorem longest_side_is_first_maximum:
  assumes "3 \<le> length polygon"
  shows "\<exists>i. first_longest polygon (length polygon) i \<and>
           find_longest_side_with_bearing polygon = Inr (side_record polygon i)"
proof -
  obtain n where n: "length polygon = Suc n" using assms by (cases "length polygon") auto
  have one: "1 < length polygon" using assms by simp
  have "polygon \<noteq> []" using assms by auto
  then have "find_longest_side_with_bearing polygon
      = Inr (foldl (longest_side_step polygon) (0, 0, 0, polygon ! 0, polygon ! 1) [0..<Suc n])"
    using assms one by (simp add: find_longest_side_with_bearing_def n del: upt_Suc)
  then show ?thesis
    using longest_side_fold[OF one, of n] n by auto
qed

lemma calculate_distance_cong:
  "haversine_a p q = haversine_a p' q' \<Longrightarrow> calculate_distance p q = calculate_distance p' q'"
  by (simp add: calculate_distance_def)

lemma calculate_distance_le_iff:
  "calculate_distance p q \<le> calculate_distance p' q' \<longleftrightarrow> haversine_a p q \<le> haversine_a p' q'"
  using calculate_distance_less_iff[of p' q' p q] by (simp add: not_less[symmetric])

lemma radians_minus: "radians (- x) = - radians x"
  by (simp add: radians_def)

lemma sin_one_degree: "0 < sin (radians 1)"
proof (rule sin_gt_zero)
  show "0 < radians 1" by (simp add: radians_def)
  have "pi / 180 < pi" by simp
  then show "radians 1 < pi" by (simp add: radians_def)
qed

lemma east_bearing: "edge_bearing (0, 0) (0, 1) = 90"
proof -
  have h: "atan2 (sin (radians 1)) 0 = pi / 2"
    using sin_one_degree by (simp add: atan2_def)
  show ?thesis
    by (simp add: edge_bearing_def Let_def radians_0 h degrees_def py_mod_def)
qed

lemma unit_square_sides:
  "side_length [(0, 0), (0, 1), (1, 1), (1, 0)] i \<le> side_length [(0, 0), (0, 1), (1, 1), (1, 0)] 0"
  if "i < 4"
proof -
  have c: "(cos (radians 1))\<^sup>2 * (sin (radians 1 / 2))\<^sup>2 \<le> 1 * (sin (radians 1 / 2))\<^sup>2"
    by (intro mult_right_mono) (simp_all add: abs_square_le_1)
  from that consider "i = 0" | "i = 1" | "i = 2" | "i = 3" by linarith
  then show ?thesis
  proof cases
    case 1 then show ?thesis by simp
  next
    case 2 then show ?thesis
      by (simp add: side_length_def calculate_distance_le_iff haversine_a_def radians_0)
  next
    case 3 then show ?thesis
      using c by (simp add: side_length_def calculate_distance_le_iff haversine_a_def radians_0
          radians_minus Let_def power2_eq_square)
  next
    case 4 then show ?thesis
      by (simp add: side_length_def calculate_distance_le_iff haversine_a_def radians_0
          radians_minus)
  qed
qed

theorem longest_side_is_first_maximum_witness:
  "find_longest_side_with_bearing [(0, 0), (0, 1), (1, 1), (1, 0)] =
     Inr (0, calculate_distance (0, 0) (0, 1), 90, (0, 0), (0, 1))"
proof -
  let ?sq = "[(0, 0), (0, 1), (1, 1), (1, 0)] :: point list"
  have len: "3 \<le> length ?sq" by simp
  from longest_side_is_first_maximum[OF len]
  obtain i where "first_longest ?sq (length ?sq) i"
    and f: "find_longest_side_with_bearing ?sq = Inr (side_record ?sq i)"
    by blast
  then have i: "first_longest ?sq 4 i" by (simp add: numeral_eq_Suc)
  have "i = 0"
  proof (rule ccontr)
    assume "i \<noteq> 0"
    then have "side_length ?sq 0 < side_length ?sq i"
      using i by (simp add: first_longest_def)
    moreover have "side_length ?sq i \<le> side_length ?sq 0"
      using i unit_square_sides[of i] by (simp add: first_longest_def)
    ultimately show False by simp
  qed
  then show ?thesis
    using f by (simp add: side_record_def side_length_def side_bearing_def east_bearing)
qed

subsection \<open>The sweep returns\<close>

lemma passes_from_step:
  assumes "0 < spacing_meters env" "offset_distance \<le> max_extend env"
  shows "passes_from env offset_distance = Suc (passes_from env (offset_distance + spacing_meters env))"
proof (cases "offset_distance + spacing_meters env \<le> max_extend env")
  case True
  let ?s = "spacing_meters env" and ?M = "max_extend env"
  have "(?M - (offset_distance + ?s)) / ?s = (?M - offset_distance) / ?s - 1"
    using assms(1) by (simp add: field_simps)
  then have f: "\<lfloor>(?M - (offset_distance + ?s)) / ?s\<rfloor> = \<lfloor>(?M - offset_distance) / ?s\<rfloor> - 1"
    by simp
  have "0 \<le> (?M - (offset_distance + ?s)) / ?s" using True assms(1) by simp
  then have "0 \<le> \<lfloor>(?M - (offset_distance + ?s)) / ?s\<rfloor>" by simp
  then show ?thesis
    using True assms(2) f by (simp add: passes_from_def nat_diff_distrib)
next
  case False
  let ?s = "spacing_meters env" and ?M = "max_extend env"
  have "(?M - offset_distance) / ?s < 1" using False assms(1) by (simp add: field_simps)
  moreover have "0 \<le> (?M - offset_distance) / ?s" using assms by simp
  ultimately have "\<lfloor>(?M - offset_distance) / ?s\<rfloor> = 0" by (simp add: floor_eq_iff)
  then show ?thesis
    using False assms(2) by (simp add: passes_from_def)
qed

lemma sweep_while_returns:
  assumes "0 < spacing_meters env"
  shows "\<exists>lines. sweep_while env direction offset_distance (kept, passes)
           = Some (lines, passes + passes_from env offset_distance)"
proof (induction "passes_from env offset_distance" arbitrary: offset_distance kept passes)
  case 0
  then have "\<not> offset_distance \<le> max_extend env"
    by (auto simp add: passes_from_def split: if_splits)
  then show ?case
    using 0 by (subst sweep_while.simps) simp
next
  case (Suc n)
  then have le: "offset_distance \<le> max_extend env"
    by (auto simp add: passes_from_def split: if_splits)
  have n: "n = passes_from env (offset_distance + spacing_meters env)"
    using passes_from_step[OF assms le] Suc.hyps(2) by simp
  have p: "passes + passes_from env offset_distance = Suc passes + n"
    using Suc.hyps(2) by simp
  show ?case
  proof (cases "offset_distance = 0 \<and> direction = - 1")
    case True
    from Suc.hyps(1)[OF n, of kept "Suc passes"] obtain lines where
      "sweep_while env direction (offset_distance + spacing_meters env) (kept, Suc passes)
         = Some (lines, Suc passes + n)"
      using n by auto
    then show ?thesis
      using le True p by (subst sweep_while.simps) simp
  next
    case False
    from Suc.hyps(1)[OF n, of "sweep_body env direction offset_distance kept" "Suc passes"]
    obtain lines where
      "sweep_while env direction (offset_distance + spacing_meters env)
         (sweep_body env direction offset_distance kept, Suc passes)
         = Some (lines, Suc passes + n)"
      using n by auto
    then show ?thesis
      using le False p by (subst sweep_while.simps) auto
  qed
qed

lemma sweep_while_diverges:
  assumes "spacing_meters env \<le> 0" "offset_distance \<le> max_extend env"
  shows "sweep_while env direction offset_distance st = None"
proof (rule ccontr)
  assume "sweep_while env direction offset_distance st \<noteq> None"
  then obtain r where r: "sweep_while env direction offset_distance st = Some r" by auto
  have "\<not> (spacing_meters env \<le> 0 \<and> offset_distance \<le> max_extend env)"
  proof (rule sweep_while.raw_induct[where P = "\<lambda>env direction offset_distance st y.
            \<not> (spacing_meters env \<le> 0 \<and> offset_distance \<le> max_extend env)", OF _ r])
    fix sw env direction offset_distance st y
    assume ih: "\<And>e d off st y. sw e d off st = Some y \<Longrightarrow>
                  \<not> (spacing_meters e \<le> 0 \<and> off \<le> max_extend e)"
      and st: "(if offset_distance \<le> max_extend env
                then if offset_distance = 0 \<and> direction = - 1
                     then sw env direction (offset_distance + spacing_meters env)
                            (fst st, Suc (snd st))
                     else sw env direction (offset_distance + spacing_meters env)
                            (sweep_body env direction offset_distance (fst st), Suc (snd st))
                else Some st) = Some y"
    show "\<not> (spacing_meters env \<le> 0 \<and> offset_distance \<le> max_extend env)"
    proof
      assume a: "spacing_meters env \<le> 0 \<and> offset_distance \<le> max_extend env"
      then have le: "offset_distance + spacing_meters env \<le> max_extend env" by simp
      from st a obtain st' where
        "sw env direction (offset_distance + spacing_meters env) st' = Some y"
        by (auto split: if_splits)
      from ih[OF this] show False using a le by simp
    qed
  qed
  then show False using assms by simp
qed

lemma passes_from_zero:
  "0 \<le> max_extend env \<Longrightarrow>
     passes_from env 0 = nat \<lfloor>max_extend env / spacing_meters env\<rfloor> + 1"
  by (simp add: passes_from_def)

lemma sweep_returns:
  assumes "0 < spacing_meters env" "0 \<le> max_extend env"
  shows "\<exists>lines. sweep env = Some (lines, 2 * nat \<lfloor>max_extend env / spacing_meters env\<rfloor> + 2)"
proof -
  obtain l1 where l1: "sweep_while env (- 1) 0 ([], 0) = Some (l1, 0 + passes_from env 0)"
    using sweep_while_returns[OF assms(1)] by blast
  obtain l2 where l2: "sweep_while env 1 0 (l1, passes_from env 0)
                         = Some (l2, passes_from env 0 + passes_from env 0)"
    using sweep_while_returns[OF assms(1)] by blast
  show ?thesis
    using l1 l2 by (simp add: sweep_def passes_from_zero[OF assms(2)])
qed

lemma passes_bound:
  fixes s M :: real
  assumes "0 < s" "0 \<le> M"
  shows "real (2 * nat \<lfloor>M / s\<rfloor> + 2) \<le> 2 * (M / s) + 2"
proof -
  have "0 \<le> M / s" using assms by simp
  then have "0 \<le> \<lfloor>M / s\<rfloor>" by simp
  then have "real (nat \<lfloor>M / s\<rfloor>) = of_int \<lfloor>M / s\<rfloor>" by simp
  also have "\<dots> \<le> M / s" by (rule of_int_floor_le)
  finally show ?thesis by simp
qed

lemma sweep_diverges:
  assumes "spacing_meters env \<le> 0" "0 \<le> max_extend env"
  shows "sweep env = None"
  by (simp add: sweep_def sweep_while_diverges[OF assms])

lemma make_env_fields:
  "spacing_meters (make_env spacing bearing buffered bounds) = spacing * 111000"
  "0 \<le> max_extend (make_env spacing bearing buffered bounds)"
  "scan_bearing (make_env spacing bearing buffered bounds) = bearing"
  by (cases bounds; simp add: make_env_def calculate_distance_nonneg)+

lemma prepare_sweep_succeeds:
  assumes "3 \<le> length polygon"
  shows "\<exists>env corners. prepare_sweep spacing buffer_distance polygon = Inr (env, corners) \<and>
           spacing_meters env = spacing * 111000 \<and> 0 \<le> max_extend env \<and>
           buffered_polygon env = create_buffer_polygon buffer_distance polygon"
proof -
  let ?b = "create_buffer_polygon buffer_distance polygon"
  have len: "length ?b = length polygon" by (simp add: create_buffer_polygon_def)
  then have ne: "?b \<noteq> []" using assms by auto
  obtain ls where ls: "find_longest_side_with_bearing ?b = Inr ls"
  proof (cases "find_longest_side_with_bearing ?b")
    case (Inl e)
    then show ?thesis
      using ne by (simp add: find_longest_side_with_bearing_def split: if_splits)
  next
    case (Inr ls)
    then show ?thesis using that by blast
  qed
  obtain bounds where bounds: "get_polygon_bounds ?b = Inr bounds"
  proof (cases "get_polygon_bounds ?b")
    case (Inl e)
    then show ?thesis
      using ne by (simp add: get_polygon_bounds_def Let_def)
  next
    case (Inr bounds)
    then show ?thesis using that by blast
  qed
  obtain corners where corners: "find_polygon_corners ?b = Inr corners"
  proof (cases "find_polygon_corners ?b")
    case (Inl e)
    then show ?thesis
      using bounds by (simp add: find_polygon_corners_def split: if_splits prod.splits)
  next
    case (Inr corners)
    then show ?thesis using that by blast
  qed
  obtain i l b s e where t: "ls = (i, l, b, s, e)" by (cases ls) auto
  have "prepare_sweep spacing buffer_distance polygon
          = Inr (make_env spacing b ?b bounds, corners)"
    by (simp add: prepare_sweep_def Let_def ls t corners bounds)
  then show ?thesis
    by (simp add: make_env_fields buffered_polygon_make_env)
qed

lemma sweep_while_keeps_nothing:
  assumes "0 < spacing_meters env"
    and "\<forall>k::nat. offset_distance + real k * spacing_meters env \<le> max_extend env \<longrightarrow>
           length (probe_clip env direction (offset_distance + real k * spacing_meters env)) < 2"
  shows "\<exists>n. sweep_while env direction offset_distance (kept, passes) = Some (kept, passes + n)"
  using assms(2)
proof (induction "passes_from env offset_distance" arbitrary: offset_distance passes)
  case 0
  then have "\<not> offset_distance \<le> max_extend env"
    by (auto simp add: passes_from_def split: if_splits)
  then have "sweep_while env direction offset_distance (kept, passes) = Some (kept, passes + 0)"
    by (subst sweep_while.simps) simp
  then show ?case by blast
next
  case (Suc n)
  then have le: "offset_distance \<le> max_extend env"
    by (auto simp add: passes_from_def split: if_splits)
  have n: "n = passes_from env (offset_distance + spacing_meters env)"
    using passes_from_step[OF assms(1) le] Suc.hyps(2) by simp
  have here: "length (probe_clip env direction offset_distance) < 2"
    using Suc.prems[rule_format, of 0] le by simp
  have later: "\<forall>k::nat. offset_distance + spacing_meters env + real k * spacing_meters env \<le> max_extend env \<longrightarrow>
           length (probe_clip env direction (offset_distance + spacing_meters env + real k * spacing_meters env)) < 2"
  proof (intro allI impI)
    fix k :: nat
    have eq: "offset_distance + spacing_meters env + real k * spacing_meters env
        = offset_distance + real (Suc k) * spacing_meters env"
      by (simp add: algebra_simps)
    assume "offset_distance + spacing_meters env + real k * spacing_meters env \<le> max_extend env"
    then have "offset_distance + real (Suc k) * spacing_meters env \<le> max_extend env"
      unfolding eq .
    then have "length (probe_clip env direction (offset_distance + real (Suc k) * spacing_meters env)) < 2"
      using Suc.prems by blast
    then show "length (probe_clip env direction (offset_distance + spacing_meters env + real k * spacing_meters env)) < 2"
      unfolding eq .
  qed
  from Suc.hyps(1)[OF n later, of "Suc passes"] obtain m where
    m: "sweep_while env direction (offset_distance + spacing_meters env) (kept, Suc passes)
          = Some (kept, Suc passes + m)"
    by blast
  have "sweep_while env direction offset_distance (kept, passes) = Some (kept, passes + Suc m)"
    using le m sweep_body_dropped[OF here, of kept]
    by (subst sweep_while.simps) auto
  then show ?case by blast
qed

lemma sweep_keeps_nothing:
  assumes "0 < spacing_meters env"
    and "\<forall>direction\<in>{- 1, 1}. \<forall>k::nat. real k * spacing_meters env \<le> max_extend env \<longrightarrow>
           length (probe_clip env direction (real k * spacing_meters env)) < 2"
  shows "\<exists>n. sweep env = Some ([], n)"
proof -
  have a: "\<forall>k::nat. 0 + real k * spacing_meters env \<le> max_extend env \<longrightarrow>
           length (probe_clip env d (0 + real k * spacing_meters env)) < 2" if "d \<in> {- 1, 1}" for d
    using assms(2) that by auto
  obtain n1 where n1: "sweep_while env (- 1) 0 ([], 0) = Some ([], 0 + n1)"
    using sweep_while_keeps_nothing[OF assms(1) a[of "- 1"]] by blast
  obtain n2 where n2: "sweep_while env 1 0 ([], n1) = Some ([], n1 + n2)"
    using sweep_while_keeps_nothing[OF assms(1) a[of 1]] by blast
  show ?thesis using n1 n2 by (simp add: sweep_def)
qed

lemma optimize_no_lines: "optimize_line_ordering_for_corners home [] corners bearing = []"
  by (simp add: optimize_line_ordering_for_corners_def)

lemma generate_returns:
  assumes "0 < spacing"
  shows "\<exists>ws. generate_parallel_lines_to_longest_side spacing buffer_distance home polygon
           = Some (Inr ws)"
proof (cases "length polygon < 3")
  case True
  then show ?thesis by (simp add: generate_parallel_lines_to_longest_side_def)
next
  case False
  then have "3 \<le> length polygon" by simp
  from prepare_sweep_succeeds[OF this, of spacing buffer_distance] obtain env corners where
    p: "prepare_sweep spacing buffer_distance polygon = Inr (env, corners)"
    and s: "spacing_meters env = spacing * 111000" and m: "0 \<le> max_extend env"
    by blast
  have "0 < spacing_meters env" using assms s by simp
  from sweep_returns[OF this m] obtain lines passes where "sweep env = Some (lines, passes)"
    by blast
  then show ?thesis
    using False p by (simp add: generate_parallel_lines_to_longest_side_def)
qed

lemma generate_diverges:
  assumes "spacing \<le> 0" "3 \<le> length polygon"
  shows "generate_parallel_lines_to_longest_side spacing buffer_distance home polygon = None"
proof -
  from prepare_sweep_succeeds[OF assms(2), of spacing buffer_distance] obtain env corners where
    p: "prepare_sweep spacing buffer_distance polygon = Inr (env, corners)"
    and s: "spacing_meters env = spacing * 111000" and m: "0 \<le> max_extend env"
    by blast
  have "spacing_meters env \<le> 0" using assms(1) s by (simp add: mult_le_0_iff)
  from sweep_diverges[OF this m] show ?thesis
    using assms(2) p by (simp add: generate_parallel_lines_to_longest_side_def)
qed

text \<open>
  C10. With a positive spacing the sweep returns, after
  \<open>2 \<lfloor>max_extend / spacing_meters\<rfloor> + 2\<close> passes of its loop, which is at most
  \<open>2 (max_extend / spacing_meters) + 2\<close>, and so does the whole generation, for every
  polygon. The spacing is not validated: with a spacing of 0 or less the offset never
  passes \<open>max_extend\<close>, and on a polygon of at least three vertices neither the sweep
  nor the generation returns.
\<close>

theorem sweep_terminates_within_bound:
  "(0 \<le> max_extend env \<and> 0 < spacing_meters env \<longrightarrow>
      (\<exists>lines passes. sweep env = Some (lines, passes) \<and>
         passes = 2 * nat \<lfloor>max_extend env / spacing_meters env\<rfloor> + 2 \<and>
         real passes \<le> 2 * (max_extend env / spacing_meters env) + 2)) \<and>
   (0 \<le> max_extend env \<and> spacing_meters env \<le> 0 \<longrightarrow> sweep env = None) \<and>
   (3 \<le> length polygon \<longrightarrow>
      (\<exists>env' corners. prepare_sweep spacing buffer_distance polygon = Inr (env', corners) \<and>
         0 \<le> max_extend env' \<and> spacing_meters env' = spacing * 111000) \<and>
      (spacing \<le> 0 \<longrightarrow>
         generate_parallel_lines_to_longest_side spacing buffer_distance home polygon = None)) \<and>
   (0 < spacing \<longrightarrow>
      (\<exists>ws. generate_parallel_lines_to_longest_side spacing buffer_distance home polygon
         = Some (Inr ws)))"
proof (intro conjI impI)
  assume a: "0 \<le> max_extend env \<and> 0 < spacing_meters env"
  then obtain lines where
    "sweep env = Some (lines, 2 * nat \<lfloor>max_extend env / spacing_meters env\<rfloor> + 2)"
    using sweep_returns[of env] by blast
  then show "\<exists>lines passes. sweep env = Some (lines, passes) \<and>
         passes = 2 * nat \<lfloor>max_extend env / spacing_meters env\<rfloor> + 2 \<and>
         real passes \<le> 2 * (max_extend env / spacing_meters env) + 2"
    using passes_bound[of "spacing_meters env" "max_extend env"] a by blast
next
  assume "0 \<le> max_extend env \<and> spacing_meters env \<le> 0"
  then show "sweep env = None" using sweep_diverges[of env] by blast
next
  assume "3 \<le> length polygon"
  then show "\<exists>env' corners. prepare_sweep spacing buffer_distance polygon = Inr (env', corners) \<and>
         0 \<le> max_extend env' \<and> spacing_meters env' = spacing * 111000"
    using prepare_sweep_succeeds[of polygon spacing buffer_distance] by blast
next
  assume "3 \<le> length polygon" "spacing \<le> 0"
  then show "generate_parallel_lines_to_longest_side spacing buffer_distance home polygon = None"
    using generate_diverges by blast
next
  assume "0 < spacing"
  then show "\<exists>ws. generate_parallel_lines_to_longest_side spacing buffer_distance home polygon
         = Some (Inr ws)"
    by (rule generate_returns)
qed

theorem sweep_terminates_within_bound_witness:
  "(\<exists>lines. sweep \<lparr>center_lat = 0, center_lon = 0, perp_bearing = 90, scan_bearing = 0,
                    buffered_polygon = [(- 1, - 1), (- 1, 1), (1, 1), (1, - 1)],
                    spacing_meters = 1, max_extend = 2\<rparr> = Some (lines, 6)) \<and>
   sweep \<lparr>center_lat = 0, center_lon = 0, perp_bearing = 90, scan_bearing = 0,
          buffered_polygon = [(- 1, - 1), (- 1, 1), (1, 1), (1, - 1)],
          spacing_meters = 0, max_extend = 2\<rparr> = None \<and>
   generate_parallel_lines_to_longest_side 0 0 None [(0, 0), (0, 1), (1, 1), (1, 0)] = None \<and>
   (\<exists>ws. generate_parallel_lines_to_longest_side 1 0 None [(0, 0), (0, 1), (1, 1), (1, 0)]
      = Some (Inr ws))"
  using sweep_terminates_within_bound[of "\<lparr>center_lat = 0, center_lon = 0, perp_bearing = 90,
        scan_bearing = 0, buffered_polygon = [(- 1, - 1), (- 1, 1), (1, 1), (1, - 1)],
        spacing_meters = 1, max_extend = 2\<rparr>" "[(0, 0), (0, 1), (1, 1), (1, 0)]" 1 0 None]
    sweep_terminates_within_bound[of "\<lparr>center_lat = 0, center_lon = 0, perp_bearing = 90,
        scan_bearing = 0, buffered_polygon = [(- 1, - 1), (- 1, 1), (1, 1), (1, - 1)],
        spacing_meters = 0, max_extend = 2\<rparr>" "[(0, 0), (0, 1), (1, 1), (1, 0)]" 0 0 None]
  by simp

text \<open>
  C9 (as amended). A polygon of fewer than three vertices gives the empty path at once.
  On a polygon of at least three vertices and with a positive spacing, a run none of
  whose probes, at the offsets \<open>k\<close> times the spacing up to \<open>max_extend\<close> in both
  directions, is clipped to two points or more returns the empty path. With a spacing
  of 0 or less the generation does not return on such a polygon. The distances are
  computed over the reals, where the arguments of the two square roots of the
  haversine formula lie between 0 and 1 (\<open>haversine_a_bounds\<close>); what rounding does to
  them is not part of the statement.
\<close>

theorem degenerate_runs_return_empty:
  "(length polygon < 3 \<longrightarrow>
      generate_parallel_lines_to_longest_side spacing buffer_distance home polygon = Some (Inr [])) \<and>
   (3 \<le> length polygon \<and> 0 < spacing \<longrightarrow>
      (\<exists>env corners. prepare_sweep spacing buffer_distance polygon = Inr (env, corners) \<and>
         ((\<forall>direction\<in>{- 1, 1}. \<forall>k::nat. real k * spacing_meters env \<le> max_extend env \<longrightarrow>
              length (probe_clip env direction (real k * spacing_meters env)) < 2) \<longrightarrow>
          generate_parallel_lines_to_longest_side spacing buffer_distance home polygon
            = Some (Inr [])))) \<and>
   (3 \<le> length polygon \<and> spacing \<le> 0 \<longrightarrow>
      generate_parallel_lines_to_longest_side spacing buffer_distance home polygon = None)"
proof (intro conjI impI)
  assume "length polygon < 3"
  then show "generate_parallel_lines_to_longest_side spacing buffer_distance home polygon = Some (Inr [])"
    by (simp add: generate_parallel_lines_to_longest_side_def)
next
  assume a: "3 \<le> length polygon \<and> 0 < spacing"
  then obtain env corners where
    p: "prepare_sweep spacing buffer_distance polygon = Inr (env, corners)"
    and s: "spacing_meters env = spacing * 111000"
    using prepare_sweep_succeeds[of polygon spacing buffer_distance] by blast
  have pos: "0 < spacing_meters env" using a s by simp
  have "generate_parallel_lines_to_longest_side spacing buffer_distance home polygon = Some (Inr [])"
    if "\<forall>direction\<in>{- 1, 1}. \<forall>k::nat. real k * spacing_meters env \<le> max_extend env \<longrightarrow>
              length (probe_clip env direction (real k * spacing_meters env)) < 2"
  proof -
    from sweep_keeps_nothing[OF pos that] obtain n where "sweep env = Some ([], n)" by blast
    then show ?thesis
      using a p by (simp add: generate_parallel_lines_to_longest_side_def optimize_no_lines)
  qed
  then show "\<exists>env corners. prepare_sweep spacing buffer_distance polygon = Inr (env, corners) \<and>
         ((\<forall>direction\<in>{- 1, 1}. \<forall>k::nat. real k * spacing_meters env \<le> max_extend env \<longrightarrow>
              length (probe_clip env direction (real k * spacing_meters env)) < 2) \<longrightarrow>
          generate_parallel_lines_to_longest_side spacing buffer_distance home polygon
            = Some (Inr []))"
    using p by blast
next
  assume "3 \<le> length polygon \<and> spacing \<le> 0"
  then show "generate_parallel_lines_to_longest_side spacing buffer_distance home polygon = None"
    using generate_diverges by blast
qed

lemma point_polygon_clip: "line_polygon_intersections a b [p, p, p] = []"
proof -
  have "line_intersection a b p p = None"
    by (simp add: line_intersection_def intersection_denom_def)
  then show ?thesis
    by (simp add: line_polygon_intersections_def edge_intersections_def map_filter_simps)
qed

theorem degenerate_runs_return_empty_witness:
  "generate_parallel_lines_to_longest_side 1 0 None [(0, 0), (0, 1)] = Some (Inr []) \<and>
   generate_parallel_lines_to_longest_side 1 0 None [(0, 0), (0, 0), (0, 0)] = Some (Inr []) \<and>
   generate_parallel_lines_to_longest_side (- 1) 0 None [(0, 0), (0, 1), (1, 1)] = None"
proof -
  let ?p = "[(0, 0), (0, 0), (0, 0)] :: point list"
  note t = degenerate_runs_return_empty[of "[(0, 0), (0, 1)]" 1 0 None]
    degenerate_runs_return_empty[of ?p 1 0 None]
    degenerate_runs_return_empty[of "[(0, 0), (0, 1), (1, 1)]" "- 1" 0 None]
  from t(2) obtain env corners where
    p: "prepare_sweep 1 0 ?p = Inr (env, corners)"
    and g: "(\<forall>direction\<in>{- 1, 1}. \<forall>k::nat. real k * spacing_meters env \<le> max_extend env \<longrightarrow>
              length (probe_clip env direction (real k * spacing_meters env)) < 2) \<longrightarrow>
          generate_parallel_lines_to_longest_side 1 0 None ?p = Some (Inr [])"
    by auto
  have "buffered_polygon env = ?p"
    using prepare_sweep_buffered[OF p] by (simp add: create_buffer_polygon_def polygon_centroid_def
        buffer_vertex_def)
  then have "probe_clip env direction off = []" for direction off
    by (simp add: probe_clip_def Let_def point_polygon_clip split: prod.splits)
  then have "generate_parallel_lines_to_longest_side 1 0 None ?p = Some (Inr [])"
    using g by simp
  then show ?thesis using t(1) t(3) by simp
qed

text \<open>
  C9 as stated fails at the spacing 0, which nothing validates. The three vertices
  below coincide, so that every side has length zero and no probe is clipped to any
  point; yet the run does not return the empty path: the offset stays at 0, which never
  exceeds \<open>max_extend\<close>, and the loop does not end.
\<close>

theorem zero_spacing_degenerate_run_never_returns:
  "generate_parallel_lines_to_longest_side 0 0 None [(0, 0), (0, 0), (0, 0)] = None"
  by (rule generate_diverges) simp_all

subsection \<open>Line count and spacing\<close>

text \<open>The lines a sweep retains, counted pass by pass.\<close>

lemma sweep_while_counts:
  assumes "0 < spacing_meters env"
  shows "\<exists>lines. sweep_while env direction offset_distance (kept, passes)
           = Some (lines, passes + passes_from env offset_distance) \<and>
         length lines = length kept +
           (\<Sum>k<passes_from env offset_distance.
              appended env direction (offset_distance + real k * spacing_meters env))"
proof (induction "passes_from env offset_distance" arbitrary: offset_distance kept passes)
  case 0
  then have "\<not> offset_distance \<le> max_extend env"
    by (auto simp add: passes_from_def split: if_splits)
  then show ?case
    using 0 by (subst sweep_while.simps) simp
next
  case (Suc n)
  let ?s = "spacing_meters env"
  from Suc have le: "offset_distance \<le> max_extend env"
    by (auto simp add: passes_from_def split: if_splits)
  have n: "n = passes_from env (offset_distance + ?s)"
    using passes_from_step[OF assms le] Suc.hyps(2) by simp
  have p: "passes + passes_from env offset_distance = Suc passes + n"
    using Suc.hyps(2) by simp
  let ?kept' = "if offset_distance = 0 \<and> direction = - 1 then kept
                else sweep_body env direction offset_distance kept"
  have step: "sweep_while env direction offset_distance (kept, passes)
      = sweep_while env direction (offset_distance + ?s) (?kept', Suc passes)"
    using le by (subst sweep_while.simps) simp
  have len: "length ?kept' = length kept + appended env direction offset_distance"
    by (auto simp add: appended_def retained_def sweep_body_length)
  from Suc.hyps(1)[OF n, of ?kept' "Suc passes"] obtain lines where
    l: "sweep_while env direction (offset_distance + ?s) (?kept', Suc passes)
          = Some (lines, Suc passes + n)"
    and c: "length lines = length ?kept' +
           (\<Sum>k<n. appended env direction (offset_distance + ?s + real k * ?s))"
    using n by auto
  have shift: "(\<Sum>k<Suc n. appended env direction (offset_distance + real k * ?s))
      = appended env direction offset_distance +
        (\<Sum>k<n. appended env direction (offset_distance + ?s + real k * ?s))"
    by (subst sum.lessThan_Suc_shift) (simp add: algebra_simps)
  have "length lines = length kept +
      (\<Sum>k<passes_from env offset_distance.
         appended env direction (offset_distance + real k * ?s))"
    unfolding Suc.hyps(2)[symmetric] shift using c len by simp
  then show ?case
    using step l p by simp
qed

lemma sweep_counts:
  assumes "0 < spacing_meters env" "0 \<le> max_extend env"
  shows "\<exists>lines passes. sweep env = Some (lines, passes) \<and>
           length lines =
             (\<Sum>k<passes_from env 0. appended env (- 1) (real k * spacing_meters env)) +
             (\<Sum>k<passes_from env 0. appended env 1 (real k * spacing_meters env))"
proof -
  obtain l1 where l1: "sweep_while env (- 1) 0 ([], 0) = Some (l1, 0 + passes_from env 0)"
    and c1: "length l1 = length ([] :: scan_line list) +
      (\<Sum>k<passes_from env 0. appended env (- 1) (0 + real k * spacing_meters env))"
    using sweep_while_counts[OF assms(1), of "- 1" 0 "[]" 0] by blast
  obtain l2 where l2: "sweep_while env 1 0 (l1, passes_from env 0)
                         = Some (l2, passes_from env 0 + passes_from env 0)"
    and c2: "length l2 = length l1 +
      (\<Sum>k<passes_from env 0. appended env 1 (0 + real k * spacing_meters env))"
    using sweep_while_counts[OF assms(1), of 1 0 l1 "passes_from env 0"] by blast
  show ?thesis
    using l1 l2 c1 c2 by (simp add: sweep_def)
qed








lemma pi_ge_three: "3 \<le> pi"
proof -
  have "sin (pi / 6) \<le> pi / 6" by (rule sin_x_le_x) simp
  then show ?thesis by (simp add: sin_30)
qed



lemma create_buffer_polygon_zero: "create_buffer_polygon 0 polygon = polygon"
proof -
  have b: "buffer_vertex 0 c p = p" for c p
    by (simp add: buffer_vertex_def Let_def)
  show ?thesis
    by (simp add: create_buffer_polygon_def b map_idI)
qed

text \<open>Distance along a meridian from the equator.\<close>

lemma meridian_distance:
  assumes "0 \<le> x" "x \<le> 90"
  shows "calculate_distance (0, 0) (x, 0) = 6371000 * radians x"
proof -
  let ?y = "radians x / 2"
  have y: "0 \<le> ?y" "?y < pi / 2"
  proof -
    show "0 \<le> ?y" using assms by (simp add: radians_def)
    have "x * pi \<le> 90 * pi" using assms by simp
    then have "radians x / 2 \<le> pi / 4" by (simp add: radians_def)
    also have "\<dots> < pi / 2" by simp
    finally show "?y < pi / 2" .
  qed
  have s: "0 \<le> sin ?y" using y by (intro sin_ge_zero) simp_all
  have c: "0 < cos ?y" using y by (intro cos_gt_zero_pi) simp_all
  have a: "haversine_a (0, 0) (x, 0) = (sin ?y)\<^sup>2"
    by (simp add: haversine_a_def radians_0)
  have q2: "sqrt (1 - (sin ?y)\<^sup>2) = cos ?y"
    using c by (simp add: cos_squared_eq[symmetric] less_imp_le)
  have q1: "sqrt ((sin ?y)\<^sup>2) = sin ?y" using s by simp
  have t: "arctan (sin ?y / cos ?y) = ?y"
    using arctan_tan[of ?y] y by (simp add: tan_def)
  have "atan2 (sin ?y) (cos ?y) = ?y"
    by (simp add: atan2_def c t)
  then have "calculate_distance (0, 0) (x, 0) = 6371000 * (2 * ?y)"
    unfolding calculate_distance_def Let_def a q1 q2 by simp
  then show ?thesis by simp
qed


lemma radians_add: "radians (x + y) = radians x + radians y"
  by (simp add: radians_def add_divide_distrib distrib_right)

lemma radians_nonneg: "0 \<le> x \<Longrightarrow> 0 \<le> radians x"
  by (simp add: radians_def)

lemma radians_mono: "x \<le> y \<Longrightarrow> radians x \<le> radians y"
  by (simp add: radians_def divide_right_mono mult_right_mono)

lemma radians_small: "0 \<le> x \<Longrightarrow> x \<le> 1 \<Longrightarrow> radians x \<le> 1 / 45"
proof -
  assume "0 \<le> x" "x \<le> 1"
  then have "x * pi \<le> 1 * 4" using pi_less_4 by (intro mult_mono) simp_all
  then show ?thesis by (simp add: radians_def mult.commute)
qed

lemma find_longest_side_first:
  assumes "3 \<le> length polygon"
  shows "\<exists>i. first_longest polygon (length polygon) i \<and>
           find_longest_side_with_bearing polygon = Inr (side_record polygon i)"
proof -
  obtain n where n: "length polygon = Suc n" using assms by (cases "length polygon") auto
  have one: "1 < length polygon" using assms by simp
  have "polygon \<noteq> []" using assms by auto
  then have "find_longest_side_with_bearing polygon
      = Inr (foldl (longest_side_step polygon) (0, 0, 0, polygon ! 0, polygon ! 1) [0..<Suc n])"
    using assms one by (simp add: find_longest_side_with_bearing_def n del: upt_Suc)
  then show ?thesis
    using longest_side_fold[OF one, of n] n by auto
qed

lemma tall_side_longest:
  assumes "0 \<le> h" "h \<le> 1" "0 \<le> w" "w \<le> h / 2" "c \<le> 1"
  shows "(sin (radians h / 2))\<^sup>2 + c * (sin (radians w))\<^sup>2 \<le> (sin (radians h))\<^sup>2"
proof -
  let ?X = "radians h / 2"
  have X: "0 \<le> ?X" "?X \<le> 1 / 90"
    using radians_nonneg[OF assms(1)] radians_small[OF assms(1,2)] by simp_all
  have w: "0 \<le> radians w" "radians w \<le> ?X"
    using radians_nonneg[OF assms(3)] radians_mono[OF assms(4)] by (simp_all add: radians_def)
  have pi1: "1 / 90 \<le> pi / 2" using pi_ge_two by simp
  have "sin (radians w) \<le> sin ?X"
    using w X pi1 by (intro sin_monotone_2pi_le) simp_all
  moreover have "0 \<le> sin (radians w)"
    using w X pi_ge_two by (intro sin_ge_zero) simp_all
  ultimately have sw: "(sin (radians w))\<^sup>2 \<le> (sin ?X)\<^sup>2"
    by (simp add: power_mono)
  have "c * (sin (radians w))\<^sup>2 \<le> 1 * (sin (radians w))\<^sup>2"
    using assms(5) by (intro mult_right_mono) simp_all
  then have lhs: "(sin ?X)\<^sup>2 + c * (sin (radians w))\<^sup>2 \<le> 2 * (sin ?X)\<^sup>2"
    using sw by simp
  have "\<bar>sin ?X\<bar> \<le> \<bar>?X\<bar>" by (rule abs_sin_x_le_abs_x)
  then have "\<bar>sin ?X\<bar> \<le> 1 / 90" using X by simp
  then have "(sin ?X)\<^sup>2 \<le> (1 / 90)\<^sup>2"
    by (metis abs_ge_zero power2_abs power_mono)
  then have "(sin ?X)\<^sup>2 \<le> 1 / 2" by (simp add: power2_eq_square)
  then have cs: "1 / 2 \<le> (cos ?X)\<^sup>2" by (simp add: cos_squared_eq)
  have "sin (radians h) = 2 * sin ?X * cos ?X"
    using sin_double[of ?X] by simp
  then have "(sin (radians h))\<^sup>2 = 4 * (sin ?X)\<^sup>2 * (cos ?X)\<^sup>2"
    by (simp add: power_mult_distrib)
  moreover have "(4 * (sin ?X)\<^sup>2) * (1 / 2) \<le> (4 * (sin ?X)\<^sup>2) * (cos ?X)\<^sup>2"
    using cs by (intro mult_left_mono) simp_all
  ultimately have "2 * (sin ?X)\<^sup>2 \<le> (sin (radians h))\<^sup>2" by simp
  then show ?thesis using lhs by linarith
qed

lemma cos_product_le_one: "cos x * cos y \<le> 1" for x y :: real
proof -
  have "cos x * cos y \<le> \<bar>cos x * cos y\<bar>" by simp
  also have "\<dots> = \<bar>cos x\<bar> * \<bar>cos y\<bar>" by (simp add: abs_mult)
  also have "\<dots> \<le> 1 * 1" by (intro mult_mono) simp_all
  finally show ?thesis by simp
qed











































subsection \<open>The end points of a retained line\<close>

lemma sin_squared_mono:
  fixes x y :: real
  assumes "\<bar>x\<bar> \<le> y" "y \<le> pi / 2"
  shows "(sin x)\<^sup>2 \<le> (sin y)\<^sup>2"
proof -
  have "(sin x)\<^sup>2 = (sin \<bar>x\<bar>)\<^sup>2"
    by (cases "0 \<le> x") (simp_all add: abs_if)
  moreover have "sin \<bar>x\<bar> \<le> sin y"
  proof (rule sin_monotone_2pi_le)
    show "- (pi / 2) \<le> \<bar>x\<bar>" using pi_ge_zero by linarith
  qed (rule assms)+
  moreover have "0 \<le> sin \<bar>x\<bar>"
  proof (rule sin_ge_zero)
    show "\<bar>x\<bar> \<le> pi" using assms pi_ge_zero by linarith
  qed simp
  ultimately show ?thesis by (simp add: power_mono)
qed

text \<open>A side that spans at most \<open>h\<close> degrees in each coordinate is no longer than a
  side of \<open>2 h\<close> degrees along a meridian.\<close>

lemma short_side_bound:
  assumes "0 \<le> h" "h \<le> 1" "\<bar>fst q - fst p\<bar> \<le> h" "\<bar>snd q - snd p\<bar> \<le> h"
  shows "haversine_a p q \<le> (sin (radians h))\<^sup>2"
proof -
  have half: "radians h / 2 \<le> pi / 2"
    using radians_small[OF assms(1,2)] pi_ge_two by linarith
  have r: "\<bar>radians d / 2\<bar> \<le> radians h / 2" if "\<bar>d\<bar> \<le> h" for d
  proof -
    have "\<bar>radians d\<bar> = radians \<bar>d\<bar>" by (simp add: radians_def abs_mult)
    also have "\<dots> \<le> radians h" using that by (rule radians_mono)
    finally show ?thesis by simp
  qed
  have a: "(sin (radians (fst q - fst p) / 2))\<^sup>2 \<le> (sin (radians h / 2))\<^sup>2"
    by (rule sin_squared_mono[OF r[OF assms(3)] half])
  have b: "(sin (radians (snd q - snd p) / 2))\<^sup>2 \<le> (sin (radians h / 2))\<^sup>2"
    by (rule sin_squared_mono[OF r[OF assms(4)] half])
  have "cos (radians (fst p)) * cos (radians (fst q)) * (sin (radians (snd q - snd p) / 2))\<^sup>2
          \<le> 1 * (sin (radians (snd q - snd p) / 2))\<^sup>2"
    by (intro mult_right_mono cos_product_le_one) simp
  then have "haversine_a p q \<le> (sin (radians h / 2))\<^sup>2 + 1 * (sin (radians h / 2))\<^sup>2"
    using a b by (simp add: haversine_a_def Let_def)
  also have "\<dots> = (sin (radians h / 2))\<^sup>2 + 1 * (sin (radians (h / 2)))\<^sup>2"
    by (simp add: radians_def)
  also have "\<dots> \<le> (sin (radians h))\<^sup>2"
    using assms(1,2) by (intro tall_side_longest) simp_all
  finally show ?thesis .
qed

lemma meridian_side_bearing:
  assumes "0 < H" "H \<le> 1"
  shows "edge_bearing (- H, c) (H, c) = 0"
proof -
  let ?h = "radians H"
  have h: "0 < ?h" "?h < pi / 2"
  proof -
    show "0 < ?h" using assms(1) by (simp add: radians_def)
    have "?h \<le> 1 / 45" using assms by (intro radians_small) simp_all
    also have "\<dots> < pi / 2" using pi_ge_two by simp
    finally show "?h < pi / 2" .
  qed
  have "0 < sin ?h" using h by (intro sin_gt_zero2)
  moreover have "0 < cos ?h" using h by (intro cos_gt_zero_pi) simp_all
  ultimately have x: "0 < cos ?h * sin ?h + sin ?h * cos ?h" by simp
  show ?thesis
    using x
    by (simp add: edge_bearing_def Let_def radians_minus atan2_def degrees_def py_mod_def)
qed

lemma notched_length: "length notched_field = 8"
  by (simp add: notched_field_def)

lemma notched_sides:
  assumes "i < 8"
  shows "side_length notched_field i \<le> side_length notched_field 0"
proof -
  have a0: "haversine_a (- (1 / 100), - (1 / 200)) (1 / 100, - (1 / 200))
              = (sin (radians (1 / 100)))\<^sup>2"
    by (simp add: haversine_a_def radians_0 radians_def)
  have short: "calculate_distance p q
                 \<le> calculate_distance (- (1 / 100), - (1 / 200)) (1 / 100, - (1 / 200))"
    if "\<bar>fst q - fst p\<bar> \<le> 1 / 100" "\<bar>snd q - snd p\<bar> \<le> 1 / 100" for p q
    unfolding calculate_distance_le_iff a0 using that by (intro short_side_bound) simp_all
  have u: "[0..<8] = [0, 1, 2, 3, 4, 5, 6, 7]"
    by (simp add: numeral_eq_Suc)
  have "\<forall>j\<in>set [0..<8]. side_length notched_field j \<le> side_length notched_field 0"
    unfolding u side_length_def notched_length
    by (simp add: notched_field_def short)
  then show ?thesis using assms by simp
qed

lemma notched_longest:
  "find_longest_side_with_bearing notched_field =
     Inr (0, side_length notched_field 0, 0, notched_field ! 0, notched_field ! 1)"
proof -
  have "3 \<le> length notched_field" by (simp add: notched_length)
  from find_longest_side_first[OF this] obtain i where
    "first_longest notched_field (length notched_field) i"
    and f: "find_longest_side_with_bearing notched_field = Inr (side_record notched_field i)"
    by blast
  then have i: "first_longest notched_field 8 i" by (simp only: notched_length)
  have "i = 0"
  proof (rule ccontr)
    assume "i \<noteq> 0"
    then have "side_length notched_field 0 < side_length notched_field i"
      using i by (simp add: first_longest_def)
    moreover have "side_length notched_field i \<le> side_length notched_field 0"
      using i notched_sides[of i] by (simp add: first_longest_def)
    ultimately show False by simp
  qed
  have b: "side_bearing notched_field 0 = 0"
    using meridian_side_bearing[of "1 / 100" "- (1 / 200)"]
    by (simp add: side_bearing_def notched_field_def)
  show ?thesis
    unfolding f \<open>i = 0\<close> by (simp add: side_record_def b notched_length)
qed

lemma notched_prepare:
  "\<exists>corners. prepare_sweep spacing 0 notched_field = Inr (notched_env spacing, corners)"
proof -
  have b: "get_polygon_bounds notched_field
             = Inr (- (1 / 100), 1 / 100, - (1 / 200), 1 / 200)"
    by (simp add: get_polygon_bounds_def notched_field_def)
  obtain corners where c: "find_polygon_corners notched_field = Inr corners"
  proof (cases "find_polygon_corners notched_field")
    case (Inl e)
    then show ?thesis
      using b by (simp add: find_polygon_corners_def split: if_splits prod.splits)
  next
    case (Inr corners)
    then show ?thesis using that by blast
  qed
  have "py_mod (0 + 90) 360 = 90" by (simp add: py_mod_def)
  then have "make_env spacing 0 notched_field (- (1 / 100), 1 / 100, - (1 / 200), 1 / 200)
               = notched_env spacing"
    by (simp add: make_env_def notched_env_def)
  then have "prepare_sweep spacing 0 notched_field = Inr (notched_env spacing, corners)"
    by (simp add: prepare_sweep_def create_buffer_polygon_zero notched_longest c b)
  then show ?thesis by blast
qed

lemma notched_fields:
  "center_lat (notched_env s) = 0" "center_lon (notched_env s) = 0"
  "perp_bearing (notched_env s) = 90" "scan_bearing (notched_env s) = 0"
  "buffered_polygon (notched_env s) = notched_field"
  "spacing_meters (notched_env s) = s * 111000"
  "max_extend (notched_env s) = calculate_distance (- (1 / 100), - (1 / 200)) (1 / 100, 1 / 200) / 2"
  by (simp_all add: notched_env_def)

lemma notched_extend:
  "0 \<le> max_extend (notched_env s)" "max_extend (notched_env s) < 3000"
proof -
  show "0 \<le> max_extend (notched_env s)"
    unfolding notched_fields using calculate_distance_nonneg by simp
  have "haversine_a (- (1 / 100), - (1 / 200)) (1 / 100, 1 / 200) \<le> (sin (radians (1 / 50)))\<^sup>2"
    by (rule short_side_bound) simp_all
  also have "\<dots> = haversine_a (0, 0) (1 / 25, 0)"
    by (simp add: haversine_a_def radians_0 radians_def)
  finally have "calculate_distance (- (1 / 100), - (1 / 200)) (1 / 100, 1 / 200)
                  \<le> calculate_distance (0, 0) (1 / 25, 0)"
    by (simp only: calculate_distance_le_iff)
  also have "\<dots> = 6371000 * radians (1 / 25)"
    by (rule meridian_distance) simp_all
  also have "\<dots> < 6000"
    using pi_less_4 by (simp add: radians_def)
  finally show "max_extend (notched_env s) < 3000"
    unfolding notched_fields by simp
qed

text \<open>A spacing beyond \<open>max_extend\<close> leaves one pass to each direction: the skipped one
  and the probe through the centre.\<close>

lemma sweep_single_pass:
  assumes "0 \<le> max_extend env" "max_extend env < spacing_meters env"
  shows "sweep env = Some (sweep_body env 1 0 [], 2)"
proof -
  have out: "\<not> 0 + spacing_meters env \<le> max_extend env" using assms(2) by simp
  have "sweep_while env (- 1) 0 ([], 0) = sweep_while env (- 1) (0 + spacing_meters env) ([], 1)"
    using assms(1) by (subst sweep_while.simps) simp
  also have "\<dots> = Some ([], 1)"
    using out by (subst sweep_while.simps) simp
  finally have a: "sweep_while env (- 1) 0 ([], 0) = Some ([], 1)" .
  have "sweep_while env 1 0 ([], 1)
          = sweep_while env 1 (0 + spacing_meters env) (sweep_body env 1 0 [], 2)"
    using assms(1) by (subst sweep_while.simps) (simp add: numeral_2_eq_2)
  also have "\<dots> = Some (sweep_body env 1 0 [], 2)"
    using out by (subst sweep_while.simps) simp
  finally show ?thesis by (simp add: sweep_def a)
qed

lemma edge_intersections_octagon:
  "edge_intersections a b [p0, p1, p2, p3, p4, p5, p6, p7] =
     List.map_filter id
       [line_intersection a b p0 p1, line_intersection a b p1 p2, line_intersection a b p2 p3,
        line_intersection a b p3 p4, line_intersection a b p4 p5, line_intersection a b p5 p6,
        line_intersection a b p6 p7, line_intersection a b p7 p0]"
proof -
  have u: "[0..<8] = [0, 1, 2, 3, 4, 5, 6, 7]"
    by (simp add: numeral_eq_Suc)
  show ?thesis
    by (simp add: edge_intersections_def u map_filter_simps split: option.split)
qed

text \<open>The meridian through the centre crosses four sides of the field.\<close>

lemma notched_clip:
  fixes a b :: real
  assumes "1 / 50 \<le> a - b"
  shows "line_polygon_intersections (a, 0) (b, 0) notched_field =
           [(1 / 100, 0), (1 / 200, 0), (- (1 / 400), 0), (- (3 / 400), 0)]"
proof -
  have w: "\<not> \<bar>(a - b) * d\<bar> < 1 / 10 ^ 10" if "3 / 400 \<le> \<bar>d\<bar>" for d
  proof -
    have "(1 / 50) * (3 / 400) \<le> \<bar>a - b\<bar> * \<bar>d\<bar>"
      using assms that by (intro mult_mono) simp_all
    then show ?thesis by (simp add: abs_mult)
  qed
  have i0: "line_intersection (a, 0) (b, 0) (- (1 / 100), - (1 / 200)) (1 / 100, - (1 / 200)) = None"
    by (simp add: meridian_probe_intersection)
  have i1: "line_intersection (a, 0) (b, 0) (1 / 100, - (1 / 200)) (1 / 100, 1 / 200)
              = Some (1 / 100, 0)"
    using w[of "- (1 / 200) - 1 / 200"] by (simp add: meridian_probe_intersection)
  have i2: "line_intersection (a, 0) (b, 0) (1 / 100, 1 / 200) (1 / 200, 1 / 200) = None"
    by (simp add: meridian_probe_intersection)
  have i3: "line_intersection (a, 0) (b, 0) (1 / 200, 1 / 200) (1 / 200, - (1 / 400))
              = Some (1 / 200, 0)"
    using w[of "1 / 200 - - (1 / 400)"] by (simp add: meridian_probe_intersection)
  have i4: "line_intersection (a, 0) (b, 0) (1 / 200, - (1 / 400)) (- (1 / 400), - (1 / 400)) = None"
    by (simp add: meridian_probe_intersection)
  have i5: "line_intersection (a, 0) (b, 0) (- (1 / 400), - (1 / 400)) (- (1 / 400), 1 / 200)
              = Some (- (1 / 400), 0)"
    using w[of "- (1 / 400) - 1 / 200"] by (simp add: meridian_probe_intersection)
  have i6: "line_intersection (a, 0) (b, 0) (- (1 / 400), 1 / 200) (- (1 / 200), 1 / 200) = None"
    by (simp add: meridian_probe_intersection)
  have i7: "line_intersection (a, 0) (b, 0) (- (1 / 200), 1 / 200) (- (1 / 100), - (1 / 200))
              = Some (- (3 / 400), 0)"
    using w[of "1 / 200 - - (1 / 200)"] by (simp add: meridian_probe_intersection)
  have e: "edge_intersections (a, 0) (b, 0) notched_field =
             [(1 / 100, 0), (1 / 200, 0), (- (1 / 400), 0), (- (3 / 400), 0)]"
    unfolding notched_field_def edge_intersections_octagon i0 i1 i2 i3 i4 i5 i6 i7
    by (simp add: map_filter_simps)
  show ?thesis
    unfolding line_polygon_intersections_def e by (simp add: unique_step_def)
qed

lemma filter_key_singleton:
  "distinct (map f xs) \<Longrightarrow> k \<in> set xs \<Longrightarrow> filter (\<lambda>x. f k = f x) xs = [k]"
proof (induction xs)
  case Nil
  then show ?case by simp
next
  case (Cons x xs)
  show ?case
  proof (cases "k = x")
    case True
    have "filter (\<lambda>y. f x = f y) xs = []"
      using Cons.prems(1) by (auto simp add: filter_empty_conv)
    then show ?thesis using True by simp
  next
    case False
    then have k: "k \<in> set xs" using Cons.prems(2) by simp
    then have "f k \<in> f ` set xs" by (rule imageI)
    then have "f k \<noteq> f x" using Cons.prems(1) by auto
    then show ?thesis using Cons.IH k Cons.prems(1) by simp
  qed
qed

text \<open>Sorting by a key that tells the elements apart has one result.\<close>

lemma sort_key_unique:
  assumes "distinct (map f xs)" "mset ys = mset xs" "sorted (map f ys)"
  shows "sort_key f xs = ys"
proof (rule properties_for_sort_key[OF assms(2) _ assms(3)])
  fix k assume k: "k \<in> set ys"
  have "mset (map f ys) = mset (map f xs)" using assms(2) by (metis mset_map)
  then have d: "distinct (map f ys)" using assms(1) by (metis mset_eq_imp_distinct_iff)
  have "k \<in> set xs" using k assms(2) by (metis mset_eq_setD)
  then show "filter (\<lambda>x. f k = f x) ys = filter (\<lambda>x. f k = f x) xs"
    using filter_key_singleton[OF assms(1)] filter_key_singleton[OF d k] by simp
qed

lemma resort_unique:
  assumes "distinct (map f xs)" "mset ys = mset xs" "sorted (map f ys)"
  shows "sort_key f (sort_key g xs) = ys"
proof (rule sort_key_unique[OF _ _ assms(3)])
  have "mset (map f (sort_key g xs)) = mset (map f xs)" by (metis mset_map mset_sort)
  then show "distinct (map f (sort_key g xs))"
    using assms(1) by (metis mset_eq_imp_distinct_iff)
  show "mset ys = mset (sort_key g xs)" using assms(2) by simp
qed

lemma meridian_distance_abs:
  assumes "\<bar>x\<bar> \<le> 90"
  shows "calculate_distance (0, 0) (x, 0) = 6371000 * radians \<bar>x\<bar>"
proof -
  have "haversine_a (0, 0) (x, 0) = haversine_a (0, 0) (\<bar>x\<bar>, 0)"
    by (cases "0 \<le> x") (simp_all add: haversine_a_def abs_if radians_minus)
  then have "calculate_distance (0, 0) (x, 0) = calculate_distance (0, 0) (\<bar>x\<bar>, 0)"
    by (rule calculate_distance_cong)
  also have "\<dots> = 6371000 * radians \<bar>x\<bar>"
    using assms by (intro meridian_distance) simp_all
  finally show ?thesis .
qed

lemma meridian_gap_distance:
  assumes "\<bar>x - y\<bar> \<le> 90"
  shows "calculate_distance (y, 0) (x, 0) = 6371000 * radians \<bar>x - y\<bar>"
proof -
  have "haversine_a (y, 0) (x, 0) = haversine_a (0, 0) (x - y, 0)"
    by (simp add: haversine_a_def radians_0)
  then have "calculate_distance (y, 0) (x, 0) = calculate_distance (0, 0) (x - y, 0)"
    by (rule calculate_distance_cong)
  then show ?thesis using meridian_distance_abs[OF assms] by simp
qed

lemma north_end_order:
  fixes k :: real
  assumes "1 / 100 < k" "k < 1"
  shows "sort_key (\<lambda>p. calculate_distance (k, 0) p)
           [(1 / 100, 0), (1 / 200, 0), (- (1 / 400), 0), (- (3 / 400), 0)]
         = [(1 / 100, 0), (1 / 200, 0), (- (1 / 400), 0), (- (3 / 400), 0)]"
proof -
  let ?xs = "[(1 / 100, 0), (1 / 200, 0), (- (1 / 400), 0), (- (3 / 400), 0)] :: point list"
  have d: "calculate_distance (k, 0) (x, 0) = 6371000 * radians (k - x)"
    if "- (1 / 100) \<le> x" "x \<le> 1 / 100" for x
  proof -
    have "\<bar>x - k\<bar> = k - x" using that assms by simp
    moreover have "\<bar>x - k\<bar> \<le> 90" using that assms by simp
    ultimately show ?thesis using meridian_gap_distance[of x k] by simp
  qed
  show ?thesis
  proof (rule sort_key_unique)
    show "distinct (map (calculate_distance (k, 0)) ?xs)"
      by (simp add: d radians_def)
    show "mset ?xs = mset ?xs" by simp
    show "sorted (map (calculate_distance (k, 0)) ?xs)"
      by (simp add: d radians_def)
  qed
qed

text \<open>\<open>get_line_intersections_only\<close> returns the four crossings in their order along
  the probe, from its northern end.\<close>

lemma notched_probe_sorted:
  "get_line_intersections_only 0 0 0 notched_field
     = [(1 / 100, 0), (1 / 200, 0), (- (1 / 400), 0), (- (3 / 400), 0)]"
proof -
  let ?k = "degrees (2000 / 6371000)"
  let ?xs = "[(1 / 100, 0), (1 / 200, 0), (- (1 / 400), 0), (- (3 / 400), 0)] :: point list"
  have k: "1 / 100 < ?k" by (rule probe_half_length)
  have k2: "?k < 1"
  proof -
    have "2000 / 6371000 * 180 < (1 :: real) * 3" by simp
    also have "\<dots> \<le> 1 * pi" using pi_ge_three by simp
    finally show ?thesis by (simp add: degrees_def pos_divide_less_eq)
  qed
  have "1 / 50 \<le> ?k - - ?k" using k by simp
  then have clip: "line_polygon_intersections (?k, 0) (- ?k, 0) notched_field = ?xs"
    by (rule notched_clip)
  show ?thesis
    unfolding get_line_intersections_only_def probe_line_equator_north prod.case Let_def clip
      north_end_order[OF k k2]
    by simp
qed

text \<open>The line through the centre of the field, as the loop builds it: the second
  sort, from the offset point, puts the crossing nearest to the centre first.\<close>

lemma notched_centre_line:
  "sweep_body (notched_env s) 1 0 [] =
     [\<lparr>offset = 0,
       intersections = [(- (1 / 400), 0), (1 / 200, 0), (- (3 / 400), 0), (1 / 100, 0)],
       start_point = (- (1 / 400), 0), end_point = (1 / 100, 0)\<rparr>]"
proof -
  let ?k = "degrees (2000 / 6371000)"
  let ?xs = "[(1 / 100, 0), (1 / 200, 0), (- (1 / 400), 0), (- (3 / 400), 0)] :: point list"
  let ?ys = "[(- (1 / 400), 0), (1 / 200, 0), (- (3 / 400), 0), (1 / 100, 0)] :: point list"
  have o: "point_at_bearing_and_distance 0 0 90 (0 * 1) = (0, 0)"
    using point_at_equator_east[of 0 0] by (simp add: degrees_def)
  have "1 / 50 \<le> ?k - - ?k" using probe_half_length by simp
  then have clip: "line_polygon_intersections (?k, 0) (- ?k, 0) notched_field = ?xs"
    by (rule notched_clip)
  have g: "get_line_intersections_only 0 0 0 notched_field
             = sort_key (\<lambda>p. calculate_distance (?k, 0) p) ?xs"
    unfolding get_line_intersections_only_def probe_line_equator_north prod.case Let_def clip
    by simp
  have d: "calculate_distance (0, 0) (1 / 100, 0) = 6371000 * radians (1 / 100)"
    "calculate_distance (0, 0) (1 / 200, 0) = 6371000 * radians (1 / 200)"
    "calculate_distance (0, 0) (- (1 / 400), 0) = 6371000 * radians (1 / 400)"
    "calculate_distance (0, 0) (- (3 / 400), 0) = 6371000 * radians (3 / 400)"
    using meridian_distance_abs[of "1 / 100"] meridian_distance_abs[of "1 / 200"]
      meridian_distance_abs[of "- (1 / 400)"] meridian_distance_abs[of "- (3 / 400)"]
    by simp_all
  have r: "sort_key (\<lambda>p. calculate_distance (0, 0) p)
             (sort_key (\<lambda>p. calculate_distance (?k, 0) p) ?xs) = ?ys"
  proof (rule resort_unique)
    show "distinct (map (calculate_distance (0, 0)) ?xs)"
      by (simp add: d radians_def)
    show "mset ?ys = mset ?xs" by (simp add: add.commute add.left_commute)
    show "sorted (map (calculate_distance (0, 0)) ?ys)"
      by (simp add: d radians_def)
  qed
  have len: "2 \<le> length (sort_key (\<lambda>p. calculate_distance (?k, 0) p) ?xs)" by simp
  show ?thesis
    unfolding sweep_body_def Let_def notched_fields o fst_conv snd_conv g
    by (simp only: len if_True r) simp
qed

lemma single_line_path:
  "optimize_line_ordering_for_corners None [line] corners bearing
     = [start_point line, end_point line]"
  by (simp add: optimize_line_ordering_for_corners_def build_waypoints_def choose_line_order_def
      emit_line_def Let_def)

lemma notched_run:
  "generate_parallel_lines_to_longest_side (1 / 10) 0 None notched_field
     = Some (Inr [(- (1 / 400), 0), (1 / 100, 0)])"
proof -
  obtain corners where
    p: "prepare_sweep (1 / 10) 0 notched_field = Inr (notched_env (1 / 10), corners)"
    using notched_prepare by blast
  have "max_extend (notched_env (1 / 10)) < spacing_meters (notched_env (1 / 10))"
    using notched_extend(2)[of "1 / 10"] by (simp add: notched_fields(6))
  from sweep_single_pass[OF notched_extend(1) this]
  have s: "sweep (notched_env (1 / 10)) =
      Some ([\<lparr>offset = 0,
               intersections = [(- (1 / 400), 0), (1 / 200, 0), (- (3 / 400), 0), (1 / 100, 0)],
               start_point = (- (1 / 400), 0), end_point = (1 / 100, 0)\<rparr>], 2)"
    unfolding notched_centre_line .
  have "\<not> length notched_field < 3" by (simp add: notched_length)
  then show ?thesis
    by (simp add: generate_parallel_lines_to_longest_side_def p s single_line_path)
qed

text \<open>
  C7 fails on the C-shaped field below, \<open>0.02\<close> degrees high, \<open>0.01\<close> degrees wide and
  open to the east, run with the spacing \<open>0.1\<close>, no buffer and no home position. Its
  longest side lies on the western meridian, the sweep makes its one probe along the
  meridian through the centre \<open>(0, 0)\<close>, and that meridian crosses the boundary four
  times: going south it enters at \<open>(0.01, 0)\<close>, leaves into the opening at
  \<open>(0.005, 0)\<close>, enters again at \<open>(- 0.0025, 0)\<close> and leaves at \<open>(- 0.0075, 0)\<close>.
  \<open>get_line_intersections_only\<close> returns the four crossings in this order, the entry
  first and the exit last. The loop then sorts them again, by their distance from the
  offset point, which lies between them, and takes the first and the last of that
  order for the two end points of the line. The line is retained and gives two
  waypoints, but they are not its entry and its exit: the path starts at the crossing
  nearest to the centre, \<open>(- 0.0025, 0)\<close>, on the edge of the opening, and ends at
  \<open>(0.01, 0)\<close>; the part of the line between \<open>(- 0.0025, 0)\<close> and \<open>(- 0.0075, 0)\<close> is
  not flown.
\<close>

theorem centre_line_starts_at_interior_crossing:
  "get_line_intersections_only 0 0 0
     [(- (1 / 100), - (1 / 200)), (1 / 100, - (1 / 200)), (1 / 100, 1 / 200), (1 / 200, 1 / 200),
      (1 / 200, - (1 / 400)), (- (1 / 400), - (1 / 400)), (- (1 / 400), 1 / 200),
      (- (1 / 200), 1 / 200)]
     = [(1 / 100, 0), (1 / 200, 0), (- (1 / 400), 0), (- (3 / 400), 0)] \<and>
   generate_parallel_lines_to_longest_side (1 / 10) 0 None
     [(- (1 / 100), - (1 / 200)), (1 / 100, - (1 / 200)), (1 / 100, 1 / 200), (1 / 200, 1 / 200),
      (1 / 200, - (1 / 400)), (- (1 / 400), - (1 / 400)), (- (1 / 400), 1 / 200),
      (- (1 / 200), 1 / 200)]
     = Some (Inr [(- (1 / 400), 0), (1 / 100, 0)])"
  using notched_probe_sorted notched_run unfolding notched_field_def by (rule conjI)

text \<open>What does hold of every run that returns: the lines retained are those of the
  probed offsets whose clip has two points or more, and the path is made of one pair of
  waypoints for each of them, its start and end points in one of the two directions,
  the lines taken by ascending offset or in the reverse order.\<close>

lemma retained_lines_become_pairs:
  assumes "3 \<le> length polygon" "0 < spacing"
  shows "\<exists>env corners lines passes fs ls.
           prepare_sweep spacing buffer_distance polygon = Inr (env, corners) \<and>
           sweep env = Some (lines, passes) \<and>
           length lines =
             (\<Sum>k<passes_from env 0. appended env (- 1) (real k * spacing_meters env)) +
             (\<Sum>k<passes_from env 0. appended env 1 (real k * spacing_meters env)) \<and>
           length fs = length lines \<and>
           (ls = sort_key offset lines \<or> ls = rev (sort_key offset lines)) \<and>
           generate_parallel_lines_to_longest_side spacing buffer_distance home polygon
             = Some (Inr (concat (map2 line_pair fs ls)))"
proof -
  from prepare_sweep_succeeds[OF assms(1), of spacing buffer_distance] obtain env corners where
    p: "prepare_sweep spacing buffer_distance polygon = Inr (env, corners)"
    and s: "spacing_meters env = spacing * 111000" and m: "0 \<le> max_extend env"
    by blast
  have pos: "0 < spacing_meters env" using assms(2) s by simp
  from sweep_counts[OF pos m] obtain lines passes where
    sw: "sweep env = Some (lines, passes)"
    and c: "length lines =
             (\<Sum>k<passes_from env 0. appended env (- 1) (real k * spacing_meters env)) +
             (\<Sum>k<passes_from env 0. appended env 1 (real k * spacing_meters env))"
    by blast
  from optimize_pairs[of "sort_key offset lines" home corners "scan_bearing env"]
  obtain fs ls where
    o: "length fs = length (sort_key offset lines)"
      "ls = sort_key offset lines \<or> ls = rev (sort_key offset lines)"
      "optimize_line_ordering_for_corners home (sort_key offset lines) corners (scan_bearing env)
         = concat (map2 line_pair fs ls)"
    by blast
  have "generate_parallel_lines_to_longest_side spacing buffer_distance home polygon
          = Some (Inr (concat (map2 line_pair fs ls)))"
    using assms(1) by (simp add: generate_parallel_lines_to_longest_side_def p sw o(3))
  then show ?thesis using p sw c o(1,2) by auto
qed

end
